theory Spec2Isabelle
  imports Complex_Main
begin

section \<open>Reverse-mode gradients over the tile AST (tile/lang/ast/gradient.cc)\<close>

subsection \<open>Expression nodes and the store\<close>

text \<open>
  An \<open>ExprPtr\<close> of the source is a shared pointer; its identity is what the use map and
  the gradient cache are keyed by. The model keeps every expression node in a store
  (a list of nodes) and an \<open>ExprPtr\<close> is the position of its node. A node is never
  changed after it has been built; \<open>std::make_shared\<close> appends a node to the store.
  A pointer that may be null in the source (\<open>use_default\<close>, \<open>total\<close>, the \<open>ref\<close> of a
  tensor spec) is an \<open>option\<close>.
\<close>

type_synonym ExprPtr = nat

text \<open>
  Modelled from the spec: the enumerations \<open>AggregationOp\<close> and \<open>CombinationOp\<close> are
  declared outside gradient.cc. The spec names five values of each; the last constructor
  of each type stands for any other value, which is what reaches the final \<open>throw\<close> of
  \<open>ContractionOp\<close> and the \<open>default:\<close> label of the switch in \<open>SumOp\<close>.
\<close>

datatype AggregationOp = Agg_SUM | Agg_ASSIGN | Agg_MIN | Agg_MAX | Agg_PROD | Agg_other

datatype CombinationOp = Combo_NONE | Combo_MULTIPLY | Combo_PLUS | Combo_COND | Combo_EQ
  | Combo_other

text \<open>
  Modelled from the spec: polynomial index expressions, dimension expressions, shapes and
  tensor specs are declared in ast.h, which is not part of the source. gradient.cc builds
  only \<open>PolyIndex\<close> values, copies index specs and constraints, reads \<open>shape.dims\<close> and
  \<open>shape.layout\<close>, and uses both constructors of \<open>TensorSpecExpr\<close>.
\<close>

datatype PolyExpr = PolyIndex nat | PolyLiteral int | PolyOpExpr string "PolyExpr list"

datatype DimExpr = DimExprInt int | DimExprSym string

type_synonym ConstraintExpr = "PolyExpr \<times> DimExpr"

record LogicalShape =
  dims :: "DimExpr list"
  layout :: string

definition dims_as_exprs :: "LogicalShape \<Rightarrow> DimExpr list" where
  "dims_as_exprs sh = dims sh"

definition scalar_shape :: LogicalShape where
  "scalar_shape = \<lparr>dims = [], layout = []\<rparr>"

record TensorSpecExpr =
  ref :: "ExprPtr option"
  index_spec :: "PolyExpr list"
  output_dims :: "DimExpr list"

text \<open>\<open>TensorSpecExpr(ref, index_spec)\<close>: the spec of an input.\<close>

definition TensorSpec_in :: "ExprPtr \<Rightarrow> PolyExpr list \<Rightarrow> TensorSpecExpr" where
  "TensorSpec_in r ixs = \<lparr>ref = Some r, index_spec = ixs, output_dims = []\<rparr>"

text \<open>\<open>TensorSpecExpr(index_spec, output_dims)\<close>: the spec of an output.\<close>

definition TensorSpec_out :: "PolyExpr list \<Rightarrow> DimExpr list \<Rightarrow> TensorSpecExpr" where
  "TensorSpec_out ixs ds = \<lparr>ref = None, index_spec = ixs, output_dims = ds\<rparr>"

record ContractionExpr =
  agg_op :: AggregationOp
  combo_op :: CombinationOp
  inputs :: "TensorSpecExpr list"
  "output" :: TensorSpecExpr
  constraints :: "ConstraintExpr list"
  use_default :: "ExprPtr option"

datatype ExprKind =
    CallExpr string "ExprPtr list"
  | Contraction ContractionExpr
  | DimExprExpr DimExpr
  | FloatConst real
  | IntConst int
  | ParamExpr string

record Expr =
  shape :: LogicalShape
  kind :: ExprKind

type_synonym store = "Expr list"

definition deref :: "store \<Rightarrow> ExprPtr \<Rightarrow> Expr option" where
  "deref h p = (if p < length h then Some (h ! p) else None)"

definition make_shared :: "Expr \<Rightarrow> store \<Rightarrow> ExprPtr \<times> store" where
  "make_shared e h = (length h, h @ [e])"

subsection \<open>Failures\<close>

text \<open>
  Every \<open>throw\<close> of gradient.cc is a value of \<open>error\<close>. The last three values are not
  exceptions of the source: they stand for what is undefined behaviour there (a pointer
  that is not in the store, a null pointer that is dereferenced, \<open>operator[]\<close> out of
  range).
\<close>

datatype error =
    OutOfRange
  | InvalidOperationType
  | ProdNotSupported
  | InvalidContraction
  | NotImplemented string
  | DefaultFellThrough
  | CondNotSupported
  | NoneMultipleInputs
  | EqNotSupported
  | UnrecognizedCombo
  | UnknownFunction string
  | RuleFailed
  | BadPointer
  | NullDeref
  | IndexOutOfRange

subsection \<open>External collaborators\<close>

text \<open>
  The derivative registry and shape inference are outside gradient.cc; they are
  parameters of the model. \<open>Resolve\<close> gives the rule registered for an operation name
  (\<open>None\<close>: the lookup throws). A rule receives the forward call, \<open>dout\<close> and the
  arguments, may build nodes, and returns one gradient per argument. \<open>call_shape\<close> is the
  shape that \<open>MakeCall\<close> computes for a new call, \<open>cion_shape\<close> the shape that
  \<open>ContractionExpr::ComputeShape(layout)\<close> computes for a new contraction.
\<close>

type_synonym deriv_rule =
  "ExprPtr \<Rightarrow> ExprPtr \<Rightarrow> ExprPtr list \<Rightarrow> store \<Rightarrow> error + (ExprPtr list \<times> store)"

record env =
  Resolve :: "string \<Rightarrow> deriv_rule option"
  call_shape :: "store \<Rightarrow> string \<Rightarrow> ExprPtr list \<Rightarrow> LogicalShape"
  cion_shape :: "store \<Rightarrow> ContractionExpr \<Rightarrow> string \<Rightarrow> LogicalShape"

text \<open>
  Modelled from the spec: \<open>MakeCall(fn, args)\<close> is declared in ast.h. It builds a new call
  node of the named operation on the arguments and runs shape inference on it.
\<close>

definition MakeCall :: "env \<Rightarrow> string \<Rightarrow> ExprPtr list \<Rightarrow> store \<Rightarrow> ExprPtr \<times> store" where
  "MakeCall ev fn args h = make_shared \<lparr>shape = call_shape ev h fn args, kind = CallExpr fn args\<rparr> h"

text \<open>Literal constants are scalars.\<close>

definition make_FloatConst :: "real \<Rightarrow> store \<Rightarrow> ExprPtr \<times> store" where
  "make_FloatConst v h = make_shared \<lparr>shape = scalar_shape, kind = FloatConst v\<rparr> h"

definition make_IntConst :: "int \<Rightarrow> store \<Rightarrow> ExprPtr \<times> store" where
  "make_IntConst v h = make_shared \<lparr>shape = scalar_shape, kind = IntConst v\<rparr> h"

text \<open>
  A new contraction: its fields are set, then \<open>ComputeShape(layout)\<close> fills in its shape.
\<close>

definition make_Contraction :: "env \<Rightarrow> ContractionExpr \<Rightarrow> string \<Rightarrow> store \<Rightarrow> ExprPtr \<times> store" where
  "make_Contraction ev c lay h = make_shared \<lparr>shape = cion_shape ev h c lay, kind = Contraction c\<rparr> h"

subsection \<open>Contraction differentiation\<close>

text \<open>
  The loop of \<open>SumOp\<close> over the inputs of the forward contraction. \<open>i\<close> is the loop
  counter, the list holds \<open>op->inputs[i..]\<close>, and the pair is \<open>(dop->inputs, dop->combo_op)\<close>
  as built so far. \<open>d\<close> is the spec built from \<open>dout\<close> and the forward output's index spec.
\<close>

fun SumOp_loop :: "CombinationOp \<Rightarrow> TensorSpecExpr \<Rightarrow> nat \<Rightarrow> nat \<Rightarrow> TensorSpecExpr list
    \<Rightarrow> TensorSpecExpr list \<times> CombinationOp \<Rightarrow> error + (TensorSpecExpr list \<times> CombinationOp)" where
  "SumOp_loop c d idx i [] acc = Inr acc"
| "SumOp_loop c d idx i (x # xs) (ins, co) =
     (if idx = i then SumOp_loop c d idx (Suc i) xs (ins @ [d], co)
      else (case c of
          Combo_MULTIPLY \<Rightarrow> SumOp_loop c d idx (Suc i) xs (ins @ [x], Combo_MULTIPLY)
        | Combo_PLUS \<Rightarrow> SumOp_loop c d idx (Suc i) xs (ins, Combo_NONE)
        | Combo_COND \<Rightarrow> Inl CondNotSupported
        | Combo_NONE \<Rightarrow> Inl NoneMultipleInputs
        | Combo_EQ \<Rightarrow> Inl EqNotSupported
        | Combo_other \<Rightarrow> Inl UnrecognizedCombo))"

text \<open>
  The output spec and the layout of a gradient contraction are taken from one input spec
  of the forward contraction: \<open>TensorSpecExpr(input->index_spec,
  input->ref->shape.dims_as_exprs())\<close> and \<open>input->ref->shape.layout\<close>.
\<close>

definition output_for :: "store \<Rightarrow> TensorSpecExpr \<Rightarrow> error + (TensorSpecExpr \<times> string)" where
  "output_for h inp =
     (case ref inp of
        None \<Rightarrow> Inl NullDeref
      | Some r \<Rightarrow>
          (case deref h r of
             None \<Rightarrow> Inl BadPointer
           | Some e \<Rightarrow> Inr (TensorSpec_out (index_spec inp) (dims_as_exprs (shape e)),
                           layout (shape e))))"

definition SumOp :: "env \<Rightarrow> ExprPtr \<Rightarrow> ContractionExpr \<Rightarrow> nat \<Rightarrow> store \<Rightarrow> error + (ExprPtr \<times> store)" where
  "SumOp ev dout op idx h =
     (if idx = length (inputs op) then Inl DefaultFellThrough
      else
        (case SumOp_loop (combo_op op) (TensorSpec_in dout (index_spec (output op))) idx 0
                (inputs op) ([], Combo_NONE) of
           Inl e \<Rightarrow> Inl e
         | Inr (ins, co) \<Rightarrow>
             (if length (inputs op) \<le> idx then Inl IndexOutOfRange
              else
                (case output_for h (inputs op ! idx) of
                   Inl e \<Rightarrow> Inl e
                 | Inr (out, lay) \<Rightarrow>
                     Inr (make_Contraction ev
                            \<lparr>agg_op = Agg_SUM, combo_op = co, inputs = ins, output = out,
                             constraints = constraints op, use_default = None\<rparr> lay h)))))"

text \<open>\<open>ExtremeOp\<close> receives the pointer \<open>p\<close> to the forward contraction as well as its fields.\<close>

definition ExtremeOp :: "env \<Rightarrow> ExprPtr \<Rightarrow> ExprPtr \<Rightarrow> ContractionExpr \<Rightarrow> nat \<Rightarrow> store
    \<Rightarrow> error + (ExprPtr \<times> store)" where
  "ExtremeOp ev dout p op idx h =
     (case inputs op of
        [] \<Rightarrow> Inl IndexOutOfRange
      | inp # _ \<Rightarrow>
          (case output_for h inp of
             Inl e \<Rightarrow> Inl e
           | Inr (out, lay) \<Rightarrow>
               Inr (make_Contraction ev
                      \<lparr>agg_op = Agg_SUM, combo_op = Combo_COND,
                       inputs = [inp, TensorSpec_in p (index_spec (output op)),
                                 TensorSpec_in dout (index_spec (output op))],
                       output = out, constraints = constraints op, use_default = None\<rparr> lay h)))"

definition DefaultOp :: "ExprPtr \<Rightarrow> ContractionExpr \<Rightarrow> store \<Rightarrow> error + (ExprPtr \<times> store)" where
  "DefaultOp dout op h = Inr (dout, h)"

definition ContractionOp :: "env \<Rightarrow> ExprPtr \<Rightarrow> ExprPtr \<Rightarrow> ContractionExpr \<Rightarrow> nat \<Rightarrow> store
    \<Rightarrow> error + (ExprPtr \<times> store)" where
  "ContractionOp ev dout p expr idx h =
     (if use_default expr \<noteq> None \<and> idx = length (inputs expr) then DefaultOp dout expr h
      else if combo_op expr = Combo_EQ then Inr (make_IntConst 0 h)
      else if agg_op expr = Agg_SUM \<or> agg_op expr = Agg_ASSIGN then SumOp ev dout expr idx h
      else if agg_op expr = Agg_MIN \<or> agg_op expr = Agg_MAX then ExtremeOp ev dout p expr idx h
      else if agg_op expr = Agg_PROD then Inl ProdNotSupported
      else Inl InvalidContraction)"

subsection \<open>Call differentiation\<close>

text \<open>\<open>CallOp\<close> receives the pointer \<open>p\<close> to the forward call, its name and its arguments.\<close>

definition CallOp :: "env \<Rightarrow> ExprPtr \<Rightarrow> ExprPtr \<Rightarrow> string \<Rightarrow> ExprPtr list \<Rightarrow> nat \<Rightarrow> store
    \<Rightarrow> error + (ExprPtr \<times> store)" where
  "CallOp ev dout p fn args idx h =
     (if fn = ''tuple'' then Inl (NotImplemented ''tuple'')
      else if fn = ''element'' then Inl (NotImplemented ''element'')
      else if fn = ''reshape'' then Inl (NotImplemented ''reshape'')
      else
        (case Resolve ev fn of
           None \<Rightarrow> Inl (UnknownFunction fn)
         | Some rule \<Rightarrow>
             (case rule p dout args h of
                Inl e \<Rightarrow> Inl e
              | Inr (ds, h') \<Rightarrow> if idx < length ds then Inr (ds ! idx, h') else Inl IndexOutOfRange)))"

subsection \<open>ComputeUses\<close>

record UseInfo =
  expr :: ExprPtr
  idx :: nat

record ComputeUses =
  cu_stack :: "ExprPtr list"
  cu_seen :: "ExprPtr set"
  cu_uses :: "ExprPtr \<rightharpoonup> UseInfo list"

text \<open>
  The members \<open>stack_\<close>, \<open>seen_\<close> and \<open>uses_\<close> of the source are the fields \<open>cu_stack\<close>,
  \<open>cu_seen\<close> and \<open>cu_uses\<close>. \<open>Push\<close> appends the use to the entry of \<open>used\<close> (creating the
  entry if there is none) and pushes \<open>used\<close> on the stack; the head of \<open>cu_stack\<close> is the
  top of the stack.
\<close>

definition Push :: "ExprPtr \<Rightarrow> ExprPtr \<Rightarrow> nat \<Rightarrow> ComputeUses \<Rightarrow> ComputeUses" where
  "Push user used i cu =
     cu\<lparr>cu_uses := (cu_uses cu)(used \<mapsto>
            (case cu_uses cu used of None \<Rightarrow> [] | Some us \<Rightarrow> us) @ [\<lparr>expr = user, idx = i\<rparr>]),
        cu_stack := used # cu_stack cu\<rparr>"

fun Visit_CallExpr :: "ExprPtr \<Rightarrow> nat \<Rightarrow> ExprPtr list \<Rightarrow> ComputeUses \<Rightarrow> ComputeUses" where
  "Visit_CallExpr user i [] cu = cu"
| "Visit_CallExpr user i (a # as) cu = Visit_CallExpr user (Suc i) as (Push user a i cu)"

text \<open>The \<open>ref\<close> of an input spec is dereferenced when it is popped; a null one fails.\<close>

fun Visit_inputs :: "ExprPtr \<Rightarrow> nat \<Rightarrow> TensorSpecExpr list \<Rightarrow> ComputeUses \<Rightarrow> error + ComputeUses" where
  "Visit_inputs user i [] cu = Inr cu"
| "Visit_inputs user i (x # xs) cu =
     (case ref x of
        None \<Rightarrow> Inl NullDeref
      | Some r \<Rightarrow> Visit_inputs user (Suc i) xs (Push user r i cu))"

definition Visit_ContractionExpr :: "ExprPtr \<Rightarrow> ContractionExpr \<Rightarrow> ComputeUses \<Rightarrow> error + ComputeUses" where
  "Visit_ContractionExpr user c cu =
     (case Visit_inputs user 0 (inputs c) cu of
        Inl e \<Rightarrow> Inl e
      | Inr cu1 \<Rightarrow>
          (case use_default c of
             None \<Rightarrow> Inr cu1
           | Some d \<Rightarrow> Inr (Push user d (length (inputs c)) cu1)))"

definition Accept :: "ExprPtr \<Rightarrow> Expr \<Rightarrow> ComputeUses \<Rightarrow> error + ComputeUses" where
  "Accept p e cu =
     (case kind e of
        CallExpr fn args \<Rightarrow> Inr (Visit_CallExpr p 0 args cu)
      | Contraction c \<Rightarrow> Visit_ContractionExpr p c cu
      | DimExprExpr d \<Rightarrow> Inr cu
      | FloatConst v \<Rightarrow> Inr cu
      | IntConst v \<Rightarrow> Inr cu
      | ParamExpr n \<Rightarrow> Inr cu)"

lemma seen_Push [simp]: "cu_seen (Push user used i cu) = cu_seen cu"
  by (simp add: Push_def)

lemma seen_Visit_CallExpr [simp]: "cu_seen (Visit_CallExpr user i as cu) = cu_seen cu"
  by (induction as arbitrary: i cu) simp_all

lemma seen_Visit_inputs: "Visit_inputs user i xs cu = Inr cu' \<Longrightarrow> cu_seen cu' = cu_seen cu"
  by (induction xs arbitrary: i cu) (auto split: option.splits)

lemma seen_Accept: "Accept p e cu = Inr cu' \<Longrightarrow> cu_seen cu' = cu_seen cu"
  by (auto simp: Accept_def Visit_ContractionExpr_def split: ExprKind.splits sum.splits
      option.splits dest: seen_Visit_inputs)

text \<open>
  The loop of the constructor. Each node of the store is expanded at most once, so the
  loop ends: either the number of nodes not yet seen goes down, or the stack gets shorter.
\<close>

function ComputeUses_loop :: "store \<Rightarrow> ComputeUses \<Rightarrow> error + ComputeUses" where
  "ComputeUses_loop h cu =
     (case cu_stack cu of
        [] \<Rightarrow> Inr cu
      | e # rest \<Rightarrow>
          (if e \<in> cu_seen cu then ComputeUses_loop h (cu\<lparr>cu_stack := rest\<rparr>)
           else
             (case deref h e of
                None \<Rightarrow> Inl BadPointer
              | Some ex \<Rightarrow>
                  (case Accept e ex (cu\<lparr>cu_stack := rest, cu_seen := insert e (cu_seen cu)\<rparr>) of
                     Inl er \<Rightarrow> Inl er
                   | Inr cu' \<Rightarrow> ComputeUses_loop h cu'))))"
  by pat_completeness auto
termination
proof (relation "measures [\<lambda>(h, cu). card ({..<length h} - cu_seen cu), \<lambda>(h, cu). length (cu_stack cu)]")
  show "wf (measures [\<lambda>(h, cu). card ({..<length h} - cu_seen cu), \<lambda>(h, cu). length (cu_stack cu)])"
    by simp
next
  fix h :: store and cu :: ComputeUses and e rest
  assume "cu_stack cu = e # rest"
  then show "((h, cu\<lparr>cu_stack := rest\<rparr>), (h, cu))
      \<in> measures [\<lambda>(h, cu). card ({..<length h} - cu_seen cu), \<lambda>(h, cu). length (cu_stack cu)]"
    by simp
next
  fix h :: store and cu cu' :: ComputeUses and e rest ex
  assume unseen: "e \<notin> cu_seen cu" and d: "deref h e = Some ex"
    and a: "Accept e ex (cu\<lparr>cu_stack := rest, cu_seen := insert e (cu_seen cu)\<rparr>) = Inr cu'"
  from d have lt: "e < length h"
    by (simp add: deref_def split: if_splits)
  from seen_Accept [OF a] have s: "cu_seen cu' = insert e (cu_seen cu)"
    by simp
  have "{..<length h} - insert e (cu_seen cu) \<subset> {..<length h} - cu_seen cu"
    using unseen lt by auto
  then have "card ({..<length h} - insert e (cu_seen cu)) < card ({..<length h} - cu_seen cu)"
    by (intro psubset_card_mono) simp_all
  with s show "((h, cu'), (h, cu))
      \<in> measures [\<lambda>(h, cu). card ({..<length h} - cu_seen cu), \<lambda>(h, cu). length (cu_stack cu)]"
    by simp
qed

definition ComputeUses_ctor :: "store \<Rightarrow> ExprPtr \<Rightarrow> error + ComputeUses" where
  "ComputeUses_ctor h src = ComputeUses_loop h \<lparr>cu_stack = [src], cu_seen = {}, cu_uses = Map.empty\<rparr>"

text \<open>\<open>uses(expr)\<close> is \<open>uses_.at(expr)\<close>, and \<open>std::unordered_map::at\<close> throws \<open>std::out_of_range\<close> on a missing key.\<close>

definition uses :: "ComputeUses \<Rightarrow> ExprPtr \<Rightarrow> error + UseInfo list" where
  "uses cu e = (case cu_uses cu e of None \<Rightarrow> Inl OutOfRange | Some us \<Rightarrow> Inr us)"

subsection \<open>Gradient\<close>

text \<open>
  The state of a \<open>Gradient\<close> object: its members \<open>uses_\<close> and \<open>seen_\<close> (the fields
  \<open>gr_uses\<close> and \<open>gr_seen\<close>), and the store in which it builds the nodes of the gradient
  expressions.
\<close>

record Gradient =
  gr_store :: store
  gr_uses :: ComputeUses
  gr_seen :: "ExprPtr \<rightharpoonup> ExprPtr"

definition Gradient_ctor :: "ExprPtr \<Rightarrow> store \<Rightarrow> error + Gradient" where
  "Gradient_ctor err h =
     (case ComputeUses_ctor h err of
        Inl e \<Rightarrow> Inl e
      | Inr cu \<Rightarrow>
          (let (one, h1) = make_FloatConst 1 h
           in Inr \<lparr>gr_store = h1, gr_uses = cu, gr_seen = [err \<mapsto> one]\<rparr>))"

type_synonym 'a outcome = "(error + 'a \<times> Gradient) option"

text \<open>
  The body of the loop of \<open>GetDerivative\<close> up to the value of \<open>dop\<close>: the gradient of the
  consumer (\<open>rec\<close> is the recursive call), then the rule of the consumer's kind.
\<close>

definition local_op :: "env \<Rightarrow> ExprPtr \<Rightarrow> UseInfo \<Rightarrow> store \<Rightarrow> error + (ExprPtr \<times> store)" where
  "local_op ev dout u h =
     (case deref h (expr u) of
        None \<Rightarrow> Inl BadPointer
      | Some ux \<Rightarrow>
          (case kind ux of
             CallExpr fn args \<Rightarrow> CallOp ev dout (expr u) fn args (idx u) h
           | Contraction c \<Rightarrow> ContractionOp ev dout (expr u) c (idx u) h
           | DimExprExpr d \<Rightarrow> Inl InvalidOperationType
           | FloatConst v \<Rightarrow> Inl InvalidOperationType
           | IntConst v \<Rightarrow> Inl InvalidOperationType
           | ParamExpr n \<Rightarrow> Inl InvalidOperationType))"

definition use_dop :: "(ExprPtr \<Rightarrow> Gradient \<Rightarrow> ExprPtr outcome) \<Rightarrow> env \<Rightarrow> UseInfo \<Rightarrow> Gradient
    \<Rightarrow> ExprPtr outcome" where
  "use_dop rec ev u g =
     (case rec (expr u) g of
        None \<Rightarrow> None
      | Some (Inl e) \<Rightarrow> Some (Inl e)
      | Some (Inr (dout, g1)) \<Rightarrow>
          (case local_op ev dout u (gr_store g1) of
             Inl e \<Rightarrow> Some (Inl e)
           | Inr (dop, h) \<Rightarrow> Some (Inr (dop, g1\<lparr>gr_store := h\<rparr>))))"

text \<open>The loop over the uses; \<open>tot\<close> is the variable \<open>total\<close>, null before the first use.\<close>

fun uses_loop :: "(ExprPtr \<Rightarrow> Gradient \<Rightarrow> ExprPtr outcome) \<Rightarrow> env \<Rightarrow> UseInfo list
    \<Rightarrow> ExprPtr option \<Rightarrow> Gradient \<Rightarrow> (ExprPtr option) outcome" where
  "uses_loop rec ev [] tot g = Some (Inr (tot, g))"
| "uses_loop rec ev (u # us) tot g =
     (case use_dop rec ev u g of
        None \<Rightarrow> None
      | Some (Inl e) \<Rightarrow> Some (Inl e)
      | Some (Inr (dop, g1)) \<Rightarrow>
          (case tot of
             None \<Rightarrow> uses_loop rec ev us (Some dop) g1
           | Some t \<Rightarrow>
               (let (s, h) = MakeCall ev ''add'' [t, dop] (gr_store g1)
                in uses_loop rec ev us (Some s) (g1\<lparr>gr_store := h\<rparr>))))"

text \<open>
  What follows the loop: the zero for no use, the reduction for a total of nonzero rank,
  and \<open>seen_.emplace(expr, total)\<close>, which leaves an entry that is already there.
\<close>

definition finish :: "env \<Rightarrow> ExprPtr \<Rightarrow> ExprPtr option \<Rightarrow> Gradient \<Rightarrow> error + ExprPtr \<times> Gradient" where
  "finish ev e tot g =
     (case (case tot of
              None \<Rightarrow> Inr (make_FloatConst 0 (gr_store g))
            | Some t \<Rightarrow>
                (case deref (gr_store g) t of
                   None \<Rightarrow> Inl BadPointer
                 | Some tx \<Rightarrow>
                     if length (dims (shape tx)) \<noteq> 0
                     then Inr (MakeCall ev ''simple_reduce'' [t, e] (gr_store g))
                     else Inr (t, gr_store g))) of
        Inl er \<Rightarrow> Inl er
      | Inr (r, h) \<Rightarrow>
          Inr (r, g\<lparr>gr_store := h,
                    gr_seen := (case gr_seen g e of
                                     None \<Rightarrow> (gr_seen g)(e \<mapsto> r)
                                   | Some old \<Rightarrow> gr_seen g)\<rparr>))"

text \<open>
  \<open>GetDerivative\<close> recurses through the use map, which the source assumes to be acyclic.
  The first argument bounds the depth of the recursion; \<open>None\<close> is a call that does not
  return within that depth.
\<close>

primrec GetDerivative :: "nat \<Rightarrow> env \<Rightarrow> ExprPtr \<Rightarrow> Gradient \<Rightarrow> ExprPtr outcome" where
  "GetDerivative 0 ev e g = None"
| "GetDerivative (Suc k) ev e g =
     (case gr_seen g e of
        Some d \<Rightarrow> Some (Inr (d, g))
      | None \<Rightarrow>
          (case uses (gr_uses g) e of
             Inl er \<Rightarrow> Some (Inl er)
           | Inr us \<Rightarrow>
               (case uses_loop (GetDerivative k ev) ev us None g of
                  None \<Rightarrow> None
                | Some (Inl er) \<Rightarrow> Some (Inl er)
                | Some (Inr (tot, g1)) \<Rightarrow> Some (finish ev e tot g1))))"

subsection \<open>ComputeGradients\<close>

text \<open>The seed: the loss, or the contraction that sums a loss of nonzero rank.\<close>

definition wrap_loss :: "env \<Rightarrow> ExprPtr \<Rightarrow> store \<Rightarrow> error + (ExprPtr \<times> store)" where
  "wrap_loss ev loss h =
     (case deref h loss of
        None \<Rightarrow> Inl BadPointer
      | Some le \<Rightarrow>
          (let ndims = length (dims (shape le))
           in if ndims \<noteq> 0
              then Inr (make_Contraction ev
                     \<lparr>agg_op = Agg_SUM, combo_op = Combo_NONE,
                      inputs = [TensorSpec_in loss (map PolyIndex [0..<ndims])],
                      output = TensorSpec_out [] [], constraints = [], use_default = None\<rparr> [] h)
              else Inr (loss, h)))"

text \<open>The loop over \<open>wrts\<close>.\<close>

fun ret_loop :: "nat \<Rightarrow> env \<Rightarrow> ExprPtr list \<Rightarrow> Gradient \<Rightarrow> (ExprPtr list) outcome" where
  "ret_loop k ev [] g = Some (Inr ([], g))"
| "ret_loop k ev (w # ws) g =
     (case GetDerivative k ev w g of
        None \<Rightarrow> None
      | Some (Inl e) \<Rightarrow> Some (Inl e)
      | Some (Inr (d, g1)) \<Rightarrow>
          (case ret_loop k ev ws g1 of
             None \<Rightarrow> None
           | Some (Inl e) \<Rightarrow> Some (Inl e)
           | Some (Inr (ds, g2)) \<Rightarrow> Some (Inr (d # ds, g2))))"

definition ComputeGradients :: "nat \<Rightarrow> env \<Rightarrow> ExprPtr list \<Rightarrow> ExprPtr \<Rightarrow> store
    \<Rightarrow> (error + ExprPtr list \<times> store) option" where
  "ComputeGradients k ev wrts loss h =
     (case wrap_loss ev loss h of
        Inl e \<Rightarrow> Some (Inl e)
      | Inr (val, h1) \<Rightarrow>
          (case Gradient_ctor val h1 of
             Inl e \<Rightarrow> Some (Inl e)
           | Inr grad \<Rightarrow>
               (case ret_loop k ev wrts grad of
                  None \<Rightarrow> None
                | Some (Inl e) \<Rightarrow> Some (Inl e)
                | Some (Inr (ret, g)) \<Rightarrow> Some (Inr (ret, gr_store g)))))"

subsection \<open>The accumulated gradient, as specified\<close>

text \<open>
  The total gradient of a node in the words of the spec, to be compared with the loop of
  \<open>GetDerivative\<close>: the local contribution of the only use, or, when there are earlier
  uses, a call of \<open>add\<close> on the sum for the earlier uses and the local contribution of the
  last use. \<open>u\<close> is the last use and the list holds the earlier uses, the latest first.
\<close>

fun sum_of_contributions :: "(ExprPtr \<Rightarrow> Gradient \<Rightarrow> ExprPtr outcome) \<Rightarrow> env \<Rightarrow> UseInfo
    \<Rightarrow> UseInfo list \<Rightarrow> Gradient \<Rightarrow> ExprPtr outcome" where
  "sum_of_contributions rec ev u [] g = use_dop rec ev u g"
| "sum_of_contributions rec ev u (v # vs) g =
     (case sum_of_contributions rec ev v vs g of
        None \<Rightarrow> None
      | Some (Inl e) \<Rightarrow> Some (Inl e)
      | Some (Inr (t, g1)) \<Rightarrow>
          (case use_dop rec ev u g1 of
             None \<Rightarrow> None
           | Some (Inl e) \<Rightarrow> Some (Inl e)
           | Some (Inr (dop, g2)) \<Rightarrow>
               Some (Inr (length (gr_store g2),
                          g2\<lparr>gr_store := gr_store g2 @
                                [\<lparr>shape = call_shape ev (gr_store g2) ''add'' [t, dop],
                                  kind = CallExpr ''add'' [t, dop]\<rparr>]\<rparr>))))"

subsection \<open>Sets of nodes that a call leaves out of the cache\<close>

text \<open>
  \<open>avoids W\<close>: no node of \<open>W\<close> is in the cache, and no uncached node outside \<open>W\<close> is used by
  a node of \<open>W\<close>. \<open>blocked B\<close>: no node of \<open>B\<close> is in the cache, and every node of \<open>B\<close> is
  used by a node of \<open>B\<close>. \<open>pending\<close>: the edges of the use map between uncached nodes.
\<close>

definition avoids :: "ExprPtr set \<Rightarrow> (ExprPtr \<rightharpoonup> ExprPtr) \<Rightarrow> ComputeUses \<Rightarrow> bool" where
  "avoids W sn cu \<longleftrightarrow>
     W \<inter> dom sn = {} \<and>
     (\<forall>m us u. m \<notin> W \<and> sn m = None \<and> cu_uses cu m = Some us \<and> u \<in> set us \<longrightarrow> expr u \<notin> W)"

definition blocked :: "ExprPtr set \<Rightarrow> (ExprPtr \<rightharpoonup> ExprPtr) \<Rightarrow> ComputeUses \<Rightarrow> bool" where
  "blocked B sn cu \<longleftrightarrow>
     B \<inter> dom sn = {} \<and> (\<forall>b\<in>B. \<exists>us u. cu_uses cu b = Some us \<and> u \<in> set us \<and> expr u \<in> B)"

definition pending :: "Gradient \<Rightarrow> (ExprPtr \<times> ExprPtr) set" where
  "pending g = {(a, b). gr_seen g a = None \<and> gr_seen g b = None \<and>
                  (\<exists>us u. cu_uses (gr_uses g) a = Some us \<and> u \<in> set us \<and> expr u = b)}"

subsection \<open>Reachability in the store\<close>

text \<open>
  The operands of a node are the nodes that \<open>ComputeUses\<close> pushes when it expands it; the
  edges of a store lead from each node to its operands. \<open>confined R\<close>: the stack and the
  keys of the use map are in \<open>R\<close>. \<open>no_empty_entry\<close>: no key of the use map has an empty
  list of uses.
\<close>

definition operands :: "Expr \<Rightarrow> ExprPtr set" where
  "operands e =
     (case kind e of
        CallExpr fn args \<Rightarrow> set args
      | Contraction c \<Rightarrow> {r. \<exists>x\<in>set (inputs c). ref x = Some r} \<union> set_option (use_default c)
      | DimExprExpr d \<Rightarrow> {}
      | FloatConst v \<Rightarrow> {}
      | IntConst v \<Rightarrow> {}
      | ParamExpr n \<Rightarrow> {})"

definition edges :: "store \<Rightarrow> (ExprPtr \<times> ExprPtr) set" where
  "edges h = {(p, c). \<exists>e. deref h p = Some e \<and> c \<in> operands e}"

definition confined :: "ExprPtr set \<Rightarrow> ComputeUses \<Rightarrow> bool" where
  "confined R cu \<longleftrightarrow> set (cu_stack cu) \<subseteq> R \<and> dom (cu_uses cu) \<subseteq> R"

definition no_empty_entry :: "ComputeUses \<Rightarrow> bool" where
  "no_empty_entry cu \<longleftrightarrow> (\<forall>n. cu_uses cu n \<noteq> Some [])"

subsection \<open>Concrete expression graphs\<close>

text \<open>
  A registry that knows \<open>add\<close> (both arguments receive \<open>dout\<close>), calls of rank zero, and
  contractions whose shape is given by the dimensions of their output spec.
\<close>

definition ex_env :: env where
  "ex_env = \<lparr>Resolve = (\<lambda>fn. if fn = ''add'' then Some (\<lambda>p dout args h. Inr ([dout, dout], h)) else None),
             call_shape = (\<lambda>h fn args. scalar_shape),
             cion_shape = (\<lambda>h c lay. \<lparr>dims = output_dims (output c), layout = lay\<rparr>)\<rparr>"

definition ex_vec :: LogicalShape where
  "ex_vec = \<lparr>dims = [DimExprInt 3], layout = ''v''\<rparr>"

text \<open>
  Two vectors \<open>A\<close> (node 0) and \<open>B\<close> (node 1), a contraction over them (node 2) and the
  constant \<open>1.0\<close> (node 3), which serves as \<open>dout\<close>.
\<close>

definition ex_A :: TensorSpecExpr where
  "ex_A = TensorSpec_in 0 [PolyIndex 0]"

definition ex_B :: TensorSpecExpr where
  "ex_B = TensorSpec_in 1 [PolyIndex 0]"

definition ex_cion :: "AggregationOp \<Rightarrow> CombinationOp \<Rightarrow> TensorSpecExpr list \<Rightarrow> ExprPtr option
    \<Rightarrow> ContractionExpr" where
  "ex_cion agg combo ins dflt =
     \<lparr>agg_op = agg, combo_op = combo, inputs = ins, output = TensorSpec_out [PolyIndex 1] [DimExprInt 1],
      constraints = [(PolyIndex 0, DimExprInt 3)], use_default = dflt\<rparr>"

definition ex_store :: "ContractionExpr \<Rightarrow> store" where
  "ex_store c =
     [\<lparr>shape = ex_vec, kind = ParamExpr ''A''\<rparr>,
      \<lparr>shape = ex_vec, kind = ParamExpr ''B''\<rparr>,
      \<lparr>shape = \<lparr>dims = output_dims (output c), layout = ''v''\<rparr>, kind = Contraction c\<rparr>,
      \<lparr>shape = scalar_shape, kind = FloatConst 1\<rparr>]"

text \<open>
  \<open>y = add(x, x)\<close> on a parameter \<open>x\<close> (nodes 1 and 0), and a parameter \<open>z\<close> (node 2) that
  \<open>y\<close> does not depend on.
\<close>

definition ex_graph :: store where
  "ex_graph =
     [\<lparr>shape = scalar_shape, kind = ParamExpr ''x''\<rparr>,
      \<lparr>shape = scalar_shape, kind = CallExpr ''add'' [0, 0]\<rparr>,
      \<lparr>shape = scalar_shape, kind = ParamExpr ''z''\<rparr>]"

text \<open>The contraction that \<open>ComputeGradients\<close> wraps around the vector \<open>A\<close> (node 0) as a loss.\<close>

definition ex_wrapper :: ContractionExpr where
  "ex_wrapper = \<lparr>agg_op = Agg_SUM, combo_op = Combo_NONE, inputs = [TensorSpec_in 0 [PolyIndex 0]],
      output = TensorSpec_out [] [], constraints = [], use_default = None\<rparr>"

text \<open>
  The state of the propagator for the loss \<open>y\<close> of \<open>ex_graph\<close>, before and after the
  gradient of \<open>x\<close> has been computed.
\<close>

definition ex_grad :: Gradient where
  "ex_grad = \<lparr>gr_store = ex_graph @ [\<lparr>shape = scalar_shape, kind = FloatConst 1\<rparr>],
              gr_uses = \<lparr>cu_stack = [], cu_seen = {0, 1},
                         cu_uses = [0 \<mapsto> [\<lparr>expr = 1, idx = 0\<rparr>, \<lparr>expr = 1, idx = 1\<rparr>]]\<rparr>,
              gr_seen = [1 \<mapsto> 3]\<rparr>"

definition ex_grad_x :: Gradient where
  "ex_grad_x = \<lparr>gr_store = ex_graph @ [\<lparr>shape = scalar_shape, kind = FloatConst 1\<rparr>,
                                       \<lparr>shape = scalar_shape, kind = CallExpr ''add'' [3, 3]\<rparr>],
               gr_uses = \<lparr>cu_stack = [], cu_seen = {0, 1},
                          cu_uses = [0 \<mapsto> [\<lparr>expr = 1, idx = 0\<rparr>, \<lparr>expr = 1, idx = 1\<rparr>]]\<rparr>,
               gr_seen = [1 \<mapsto> 3, 0 \<mapsto> 4]\<rparr>"

text \<open>
  \<open>ex_graph\<close> with \<open>w = add(y, z)\<close> (node 3), the use map for the loss \<open>w\<close>, and the states of
  the propagator for that loss: the constant \<open>1.0\<close> is node 4, \<open>new\<close> holds the nodes built
  after it and \<open>sn\<close> is the cache.
\<close>

definition ex_graph_w :: store where
  "ex_graph_w = ex_graph @ [\<lparr>shape = scalar_shape, kind = CallExpr ''add'' [1, 2]\<rparr>]"

definition ex_uses_w :: ComputeUses where
  "ex_uses_w = \<lparr>cu_stack = [], cu_seen = {0, 1, 2, 3},
                cu_uses = [1 \<mapsto> [\<lparr>expr = 3, idx = 0\<rparr>], 2 \<mapsto> [\<lparr>expr = 3, idx = 1\<rparr>],
                           0 \<mapsto> [\<lparr>expr = 1, idx = 0\<rparr>, \<lparr>expr = 1, idx = 1\<rparr>]]\<rparr>"

definition ex_grad_w :: "store \<Rightarrow> (ExprPtr \<rightharpoonup> ExprPtr) \<Rightarrow> Gradient" where
  "ex_grad_w new sn = \<lparr>gr_store = ex_graph_w @ \<lparr>shape = scalar_shape, kind = FloatConst 1\<rparr> # new,
                       gr_uses = ex_uses_w, gr_seen = sn\<rparr>"

section \<open>Properties\<close>

subsection \<open>The loop of \<open>SumOp\<close>\<close>

lemma SumOp_loop_MULTIPLY_after:
  "ix < i \<Longrightarrow> SumOp_loop Combo_MULTIPLY d ix i xs (ins, co)
     = Inr (ins @ xs, if xs = [] then co else Combo_MULTIPLY)"
  by (induction xs arbitrary: i ins co) simp_all

lemma SumOp_loop_MULTIPLY:
  "i \<le> ix \<Longrightarrow> SumOp_loop Combo_MULTIPLY d ix i xs (ins, co)
     = Inr (ins @ xs[ix - i := d],
            if xs = [] \<or> (length xs = 1 \<and> ix = i) then co else Combo_MULTIPLY)"
proof (induction xs arbitrary: i ins co)
  case Nil
  then show ?case by simp
next
  case (Cons x xs)
  show ?case
  proof (cases "ix = i")
    case True
    then show ?thesis
      by (simp add: SumOp_loop_MULTIPLY_after)
  next
    case False
    with Cons.prems have "Suc i \<le> ix" by simp
    moreover from this have "ix - i = Suc (ix - Suc i)" by simp
    ultimately show ?thesis
      using False by (simp add: Cons.IH)
  qed
qed

lemma SumOp_loop_PLUS_after:
  "ix < i \<Longrightarrow> SumOp_loop Combo_PLUS d ix i xs (ins, Combo_NONE) = Inr (ins, Combo_NONE)"
  by (induction xs arbitrary: i) simp_all

lemma SumOp_loop_PLUS:
  "i \<le> ix \<Longrightarrow> ix < i + length xs \<Longrightarrow>
   SumOp_loop Combo_PLUS d ix i xs (ins, Combo_NONE) = Inr (ins @ [d], Combo_NONE)"
proof (induction xs arbitrary: i)
  case Nil
  then show ?case by simp
next
  case (Cons x xs)
  show ?case
  proof (cases "ix = i")
    case True
    then show ?thesis by (simp add: SumOp_loop_PLUS_after)
  next
    case False
    with Cons.prems have "Suc i \<le> ix" "ix < Suc i + length xs" by simp_all
    from Cons.IH [OF this] False show ?thesis by simp
  qed
qed

lemma SumOp_loop_other_input:
  assumes "c \<noteq> Combo_MULTIPLY" "c \<noteq> Combo_PLUS"
    and "ix \<noteq> i \<or> xs \<noteq> []"
  shows "SumOp_loop c d ix i (x # xs) (ins, co) =
    Inl (case c of Combo_COND \<Rightarrow> CondNotSupported | Combo_NONE \<Rightarrow> NoneMultipleInputs
          | Combo_EQ \<Rightarrow> EqNotSupported | Combo_other \<Rightarrow> UnrecognizedCombo)"
  using assms by (cases xs; cases c) auto

lemma output_for_Some:
  "ref inp = Some r \<Longrightarrow> deref h r = Some e \<Longrightarrow>
   output_for h inp = Inr (TensorSpec_out (index_spec inp) (dims (shape e)), layout (shape e))"
  by (simp add: output_for_def dims_as_exprs_def)

lemma length_ex_store: "length (ex_store c) = 4"
  by (simp add: ex_store_def)

subsection \<open>The dispatch of \<open>ContractionOp\<close>\<close>

text \<open>
  C4. \<open>ContractionOp\<close> dispatches in a fixed order. The default slot (the index equals the
  number of inputs and a default expression exists) returns \<open>dout\<close> unchanged and builds
  nothing. Otherwise an \<open>EQ\<close> combination returns a new literal integer zero. Otherwise
  \<open>SUM\<close> and \<open>ASSIGN\<close> go to \<open>SumOp\<close>, \<open>MIN\<close> and \<open>MAX\<close> go to \<open>ExtremeOp\<close>, \<open>PROD\<close> fails and
  any other aggregation fails.
\<close>

theorem ContractionOp_dispatch:
  "(use_default c \<noteq> None \<and> ix = length (inputs c) \<longrightarrow>
      ContractionOp ev dout p c ix h = Inr (dout, h))
 \<and> (\<not> (use_default c \<noteq> None \<and> ix = length (inputs c)) \<longrightarrow>
      (combo_op c = Combo_EQ \<longrightarrow>
         ContractionOp ev dout p c ix h
           = Inr (length h, h @ [\<lparr>shape = scalar_shape, kind = IntConst 0\<rparr>]))
    \<and> (combo_op c \<noteq> Combo_EQ \<longrightarrow>
         (agg_op c = Agg_SUM \<or> agg_op c = Agg_ASSIGN \<longrightarrow>
            ContractionOp ev dout p c ix h = SumOp ev dout c ix h)
       \<and> (agg_op c = Agg_MIN \<or> agg_op c = Agg_MAX \<longrightarrow>
            ContractionOp ev dout p c ix h = ExtremeOp ev dout p c ix h)
       \<and> (agg_op c = Agg_PROD \<longrightarrow> ContractionOp ev dout p c ix h = Inl ProdNotSupported)
       \<and> (agg_op c = Agg_other \<longrightarrow> ContractionOp ev dout p c ix h = Inl InvalidContraction)))"
  by (cases "agg_op c") (simp_all add: ContractionOp_def DefaultOp_def make_IntConst_def make_shared_def)

theorem ContractionOp_dispatch_witness:
  "ContractionOp ex_env 3 2 (ex_cion Agg_PROD Combo_EQ [ex_A, ex_B] (Some 1)) 2
      (ex_store (ex_cion Agg_PROD Combo_EQ [ex_A, ex_B] (Some 1)))
     = Inr (3, ex_store (ex_cion Agg_PROD Combo_EQ [ex_A, ex_B] (Some 1)))
 \<and> ContractionOp ex_env 3 2 (ex_cion Agg_SUM Combo_EQ [ex_A, ex_B] None) 0
      (ex_store (ex_cion Agg_SUM Combo_EQ [ex_A, ex_B] None))
     = Inr (4, ex_store (ex_cion Agg_SUM Combo_EQ [ex_A, ex_B] None)
               @ [\<lparr>shape = scalar_shape, kind = IntConst 0\<rparr>])
 \<and> ContractionOp ex_env 3 2 (ex_cion Agg_ASSIGN Combo_PLUS [ex_A, ex_B] None) 0
      (ex_store (ex_cion Agg_ASSIGN Combo_PLUS [ex_A, ex_B] None))
     = SumOp ex_env 3 (ex_cion Agg_ASSIGN Combo_PLUS [ex_A, ex_B] None) 0
         (ex_store (ex_cion Agg_ASSIGN Combo_PLUS [ex_A, ex_B] None))
 \<and> ContractionOp ex_env 3 2 (ex_cion Agg_MAX Combo_NONE [ex_A] None) 0
      (ex_store (ex_cion Agg_MAX Combo_NONE [ex_A] None))
     = ExtremeOp ex_env 3 2 (ex_cion Agg_MAX Combo_NONE [ex_A] None) 0
         (ex_store (ex_cion Agg_MAX Combo_NONE [ex_A] None))
 \<and> ContractionOp ex_env 3 2 (ex_cion Agg_PROD Combo_NONE [ex_A] None) 0
      (ex_store (ex_cion Agg_PROD Combo_NONE [ex_A] None)) = Inl ProdNotSupported
 \<and> ContractionOp ex_env 3 2 (ex_cion Agg_other Combo_NONE [ex_A] None) 0
      (ex_store (ex_cion Agg_other Combo_NONE [ex_A] None)) = Inl InvalidContraction"
  using
    ContractionOp_dispatch [where c = "ex_cion Agg_PROD Combo_EQ [ex_A, ex_B] (Some 1)" and ix = 2
      and ev = ex_env and dout = 3 and p = 2
      and h = "ex_store (ex_cion Agg_PROD Combo_EQ [ex_A, ex_B] (Some 1))"]
    ContractionOp_dispatch [where c = "ex_cion Agg_SUM Combo_EQ [ex_A, ex_B] None" and ix = 0
      and ev = ex_env and dout = 3 and p = 2
      and h = "ex_store (ex_cion Agg_SUM Combo_EQ [ex_A, ex_B] None)"]
    ContractionOp_dispatch [where c = "ex_cion Agg_ASSIGN Combo_PLUS [ex_A, ex_B] None" and ix = 0
      and ev = ex_env and dout = 3 and p = 2
      and h = "ex_store (ex_cion Agg_ASSIGN Combo_PLUS [ex_A, ex_B] None)"]
    ContractionOp_dispatch [where c = "ex_cion Agg_MAX Combo_NONE [ex_A] None" and ix = 0
      and ev = ex_env and dout = 3 and p = 2
      and h = "ex_store (ex_cion Agg_MAX Combo_NONE [ex_A] None)"]
    ContractionOp_dispatch [where c = "ex_cion Agg_PROD Combo_NONE [ex_A] None" and ix = 0
      and ev = ex_env and dout = 3 and p = 2
      and h = "ex_store (ex_cion Agg_PROD Combo_NONE [ex_A] None)"]
    ContractionOp_dispatch [where c = "ex_cion Agg_other Combo_NONE [ex_A] None" and ix = 0
      and ev = ex_env and dout = 3 and p = 2
      and h = "ex_store (ex_cion Agg_other Combo_NONE [ex_A] None)"]
  by (simp add: ex_cion_def ex_store_def)

text \<open>
  C2, as stated, fails: a \<open>PROD\<close> contraction with an \<open>EQ\<close> combination is differentiated
  to the literal integer zero.
\<close>

theorem PROD_rejection_as_stated_fails:
  "ContractionOp ex_env 3 2 (ex_cion Agg_PROD Combo_EQ [ex_A, ex_B] None) 0
      (ex_store (ex_cion Agg_PROD Combo_EQ [ex_A, ex_B] None))
   = Inr (4, ex_store (ex_cion Agg_PROD Combo_EQ [ex_A, ex_B] None)
             @ [\<lparr>shape = scalar_shape, kind = IntConst 0\<rparr>])"
  by (simp add: ContractionOp_def ex_cion_def ex_store_def make_IntConst_def make_shared_def)

text \<open>
  C2, amended. Differentiating a \<open>PROD\<close> contraction fails with the unsupported-operation
  failure when the slot is not the default slot and the combination is not \<open>EQ\<close>. The
  default slot passes \<open>dout\<close> through, and an \<open>EQ\<close> combination gives the literal integer
  zero, before the aggregation is looked at.
\<close>

theorem PROD_rejection:
  assumes "agg_op c = Agg_PROD"
  shows "(\<not> (use_default c \<noteq> None \<and> ix = length (inputs c)) \<and> combo_op c \<noteq> Combo_EQ
            \<longrightarrow> ContractionOp ev dout p c ix h = Inl ProdNotSupported)
       \<and> (use_default c \<noteq> None \<and> ix = length (inputs c)
            \<longrightarrow> ContractionOp ev dout p c ix h = Inr (dout, h))
       \<and> (\<not> (use_default c \<noteq> None \<and> ix = length (inputs c)) \<and> combo_op c = Combo_EQ
            \<longrightarrow> ContractionOp ev dout p c ix h
                = Inr (length h, h @ [\<lparr>shape = scalar_shape, kind = IntConst 0\<rparr>]))"
  using assms by (simp add: ContractionOp_def DefaultOp_def make_IntConst_def make_shared_def)

theorem PROD_rejection_witness:
  "ContractionOp ex_env 3 2 (ex_cion Agg_PROD Combo_MULTIPLY [ex_A, ex_B] (Some 1)) 0
      (ex_store (ex_cion Agg_PROD Combo_MULTIPLY [ex_A, ex_B] (Some 1))) = Inl ProdNotSupported
   \<and> ContractionOp ex_env 3 2 (ex_cion Agg_PROD Combo_MULTIPLY [ex_A, ex_B] (Some 1)) 2
      (ex_store (ex_cion Agg_PROD Combo_MULTIPLY [ex_A, ex_B] (Some 1)))
     = Inr (3, ex_store (ex_cion Agg_PROD Combo_MULTIPLY [ex_A, ex_B] (Some 1)))
   \<and> ContractionOp ex_env 3 2 (ex_cion Agg_PROD Combo_EQ [ex_A, ex_B] (Some 1)) 1
      (ex_store (ex_cion Agg_PROD Combo_EQ [ex_A, ex_B] (Some 1)))
     = Inr (4, ex_store (ex_cion Agg_PROD Combo_EQ [ex_A, ex_B] (Some 1))
               @ [\<lparr>shape = scalar_shape, kind = IntConst 0\<rparr>])"
  using
    PROD_rejection [where c = "ex_cion Agg_PROD Combo_MULTIPLY [ex_A, ex_B] (Some 1)" and ix = 0
      and ev = ex_env and dout = 3 and p = 2
      and h = "ex_store (ex_cion Agg_PROD Combo_MULTIPLY [ex_A, ex_B] (Some 1))"]
    PROD_rejection [where c = "ex_cion Agg_PROD Combo_MULTIPLY [ex_A, ex_B] (Some 1)" and ix = 2
      and ev = ex_env and dout = 3 and p = 2
      and h = "ex_store (ex_cion Agg_PROD Combo_MULTIPLY [ex_A, ex_B] (Some 1))"]
    PROD_rejection [where c = "ex_cion Agg_PROD Combo_EQ [ex_A, ex_B] (Some 1)" and ix = 1
      and ev = ex_env and dout = 3 and p = 2
      and h = "ex_store (ex_cion Agg_PROD Combo_EQ [ex_A, ex_B] (Some 1))"]
  by (simp add: ex_cion_def ex_store_def)

subsection \<open>\<open>SumOp\<close>\<close>

text \<open>
  C5, as stated, fails: for a contraction with \<open>MULTIPLY\<close> combination and a single input
  the loop of \<open>SumOp\<close> never reaches the \<open>MULTIPLY\<close> case, and the gradient contraction
  keeps the combination \<open>NONE\<close> it was initialised with.
\<close>

theorem SumOp_MULTIPLY_single_input:
  "ContractionOp ex_env 3 2 (ex_cion Agg_SUM Combo_MULTIPLY [ex_A] None) 0
      (ex_store (ex_cion Agg_SUM Combo_MULTIPLY [ex_A] None))
   = Inr (4, ex_store (ex_cion Agg_SUM Combo_MULTIPLY [ex_A] None)
             @ [\<lparr>shape = ex_vec,
                 kind = Contraction
                   \<lparr>agg_op = Agg_SUM, combo_op = Combo_NONE,
                    inputs = [TensorSpec_in 3 [PolyIndex 1]],
                    output = TensorSpec_out [PolyIndex 0] [DimExprInt 3],
                    constraints = [(PolyIndex 0, DimExprInt 3)], use_default = None\<rparr>\<rparr>])"
  by (simp add: ContractionOp_def SumOp_def output_for_def deref_def dims_as_exprs_def
      make_Contraction_def make_shared_def ex_env_def ex_vec_def ex_A_def ex_cion_def ex_store_def
      TensorSpec_in_def TensorSpec_out_def)

text \<open>
  C5, amended. For a \<open>SUM\<close> or \<open>ASSIGN\<close> contraction with \<open>MULTIPLY\<close> combination, the
  gradient with respect to input \<open>ix\<close> is a new contraction with \<open>SUM\<close> aggregation whose
  inputs are those of the forward contraction with the one at \<open>ix\<close> replaced by \<open>dout\<close>
  indexed by the forward output's index spec, whose constraints are copied, and whose
  output spec has the index spec of input \<open>ix\<close> and the dimensions of its shape. Its
  combination is \<open>MULTIPLY\<close> when the forward contraction has a non-differentiated
  input, and \<open>NONE\<close> when input \<open>ix\<close> is its only input.
\<close>

theorem SumOp_MULTIPLY:
  assumes "agg_op c = Agg_SUM \<or> agg_op c = Agg_ASSIGN"
    and "combo_op c = Combo_MULTIPLY"
    and "ix < length (inputs c)"
    and "ref (inputs c ! ix) = Some r"
    and "deref h r = Some e"
  shows "ContractionOp ev dout p c ix h =
     (let dop = \<lparr>agg_op = Agg_SUM,
                 combo_op = (if length (inputs c) = 1 then Combo_NONE else Combo_MULTIPLY),
                 inputs = (inputs c)[ix := TensorSpec_in dout (index_spec (output c))],
                 output = TensorSpec_out (index_spec (inputs c ! ix)) (dims (shape e)),
                 constraints = constraints c, use_default = None\<rparr>
      in Inr (length h, h @ [\<lparr>shape = cion_shape ev h dop (layout (shape e)),
                               kind = Contraction dop\<rparr>]))"
proof -
  have "SumOp_loop Combo_MULTIPLY (TensorSpec_in dout (index_spec (output c))) ix 0 (inputs c)
          ([], Combo_NONE)
        = Inr ((inputs c)[ix := TensorSpec_in dout (index_spec (output c))],
               if length (inputs c) = 1 then Combo_NONE else Combo_MULTIPLY)"
    using assms(3) by (auto simp: SumOp_loop_MULTIPLY)
  then show ?thesis
    using assms
    by (auto simp: ContractionOp_def SumOp_def output_for_Some make_Contraction_def
        make_shared_def Let_def)
qed

theorem SumOp_MULTIPLY_witness:
  "ContractionOp ex_env 3 2 (ex_cion Agg_SUM Combo_MULTIPLY [ex_A, ex_B] None) 0
      (ex_store (ex_cion Agg_SUM Combo_MULTIPLY [ex_A, ex_B] None))
   = Inr (4, ex_store (ex_cion Agg_SUM Combo_MULTIPLY [ex_A, ex_B] None)
             @ [\<lparr>shape = ex_vec,
                 kind = Contraction
                   \<lparr>agg_op = Agg_SUM, combo_op = Combo_MULTIPLY,
                    inputs = [TensorSpec_in 3 [PolyIndex 1], ex_B],
                    output = TensorSpec_out [PolyIndex 0] [DimExprInt 3],
                    constraints = [(PolyIndex 0, DimExprInt 3)], use_default = None\<rparr>\<rparr>])"
proof -
  let ?c = "ex_cion Agg_SUM Combo_MULTIPLY [ex_A, ex_B] None"
  have 1: "agg_op ?c = Agg_SUM \<or> agg_op ?c = Agg_ASSIGN" and 2: "combo_op ?c = Combo_MULTIPLY"
    and 3: "0 < length (inputs ?c)" and 4: "ref (inputs ?c ! 0) = Some 0"
    and 5: "deref (ex_store ?c) 0 = Some \<lparr>shape = ex_vec, kind = ParamExpr ''A''\<rparr>"
    by (simp_all add: ex_cion_def ex_A_def TensorSpec_in_def ex_store_def deref_def)
  show ?thesis
    using SumOp_MULTIPLY [OF 1 2 3 4 5, of ex_env 3 2]
    by (simp add: ex_cion_def ex_store_def ex_env_def ex_vec_def ex_A_def TensorSpec_in_def
        TensorSpec_out_def)
qed

text \<open>
  C6. For a contraction with \<open>PLUS\<close> combination, \<open>SumOp\<close> builds a new \<open>SUM\<close> contraction
  with combination \<open>NONE\<close> whose sole input is \<open>dout\<close> indexed by the forward output's index
  spec: the other inputs are dropped, and nothing of them is in the result. \<open>ContractionOp\<close>
  sends \<open>SUM\<close> and \<open>ASSIGN\<close> contractions with \<open>PLUS\<close> combination to \<open>SumOp\<close>. With a
  non-differentiated input present, the combinations \<open>COND\<close>, \<open>EQ\<close> and \<open>NONE\<close> make
  \<open>SumOp\<close> fail.
\<close>

theorem SumOp_PLUS:
  assumes "ix < length (inputs c)"
  shows "(combo_op c = Combo_PLUS \<and> ref (inputs c ! ix) = Some r \<and> deref h r = Some e \<longrightarrow>
            (let dop = \<lparr>agg_op = Agg_SUM, combo_op = Combo_NONE,
                        inputs = [TensorSpec_in dout (index_spec (output c))],
                        output = TensorSpec_out (index_spec (inputs c ! ix)) (dims (shape e)),
                        constraints = constraints c, use_default = None\<rparr>
             in SumOp ev dout c ix h
                  = Inr (length h, h @ [\<lparr>shape = cion_shape ev h dop (layout (shape e)),
                                          kind = Contraction dop\<rparr>])
              \<and> (agg_op c = Agg_SUM \<or> agg_op c = Agg_ASSIGN \<longrightarrow>
                   ContractionOp ev dout p c ix h = SumOp ev dout c ix h)))
       \<and> (2 \<le> length (inputs c) \<longrightarrow>
            (combo_op c = Combo_COND \<longrightarrow> SumOp ev dout c ix h = Inl CondNotSupported)
          \<and> (combo_op c = Combo_EQ \<longrightarrow> SumOp ev dout c ix h = Inl EqNotSupported)
          \<and> (combo_op c = Combo_NONE \<longrightarrow> SumOp ev dout c ix h = Inl NoneMultipleInputs))"
proof -
  have plus: "SumOp_loop Combo_PLUS (TensorSpec_in dout (index_spec (output c))) ix 0 (inputs c)
          ([], Combo_NONE) = Inr ([TensorSpec_in dout (index_spec (output c))], Combo_NONE)"
    using assms by (simp add: SumOp_loop_PLUS)
  have other: "SumOp_loop (combo_op c) d ix 0 (inputs c) ([], Combo_NONE) =
      Inl (case combo_op c of Combo_COND \<Rightarrow> CondNotSupported | Combo_NONE \<Rightarrow> NoneMultipleInputs
            | Combo_EQ \<Rightarrow> EqNotSupported | Combo_other \<Rightarrow> UnrecognizedCombo)"
    if "2 \<le> length (inputs c)" "combo_op c \<noteq> Combo_MULTIPLY" "combo_op c \<noteq> Combo_PLUS" for d
  proof -
    from that(1) obtain x xs where xs: "inputs c = x # xs" "xs \<noteq> []"
      by (cases "inputs c") (auto simp: Suc_le_eq)
    then show ?thesis
      using SumOp_loop_other_input [OF that(2,3), of ix 0 xs d x "[]" Combo_NONE] by simp
  qed
  show ?thesis
    using assms plus other
    by (auto simp: SumOp_def ContractionOp_def output_for_Some make_Contraction_def
        make_shared_def Let_def)
qed

theorem SumOp_PLUS_witness:
  "SumOp ex_env 3 (ex_cion Agg_SUM Combo_PLUS [ex_A, ex_B] None) 1
      (ex_store (ex_cion Agg_SUM Combo_PLUS [ex_A, ex_B] None))
   = Inr (4, ex_store (ex_cion Agg_SUM Combo_PLUS [ex_A, ex_B] None)
             @ [\<lparr>shape = ex_vec,
                 kind = Contraction
                   \<lparr>agg_op = Agg_SUM, combo_op = Combo_NONE,
                    inputs = [TensorSpec_in 3 [PolyIndex 1]],
                    output = TensorSpec_out [PolyIndex 0] [DimExprInt 3],
                    constraints = [(PolyIndex 0, DimExprInt 3)], use_default = None\<rparr>\<rparr>])
 \<and> ContractionOp ex_env 3 2 (ex_cion Agg_SUM Combo_PLUS [ex_A, ex_B] None) 1
      (ex_store (ex_cion Agg_SUM Combo_PLUS [ex_A, ex_B] None))
   = SumOp ex_env 3 (ex_cion Agg_SUM Combo_PLUS [ex_A, ex_B] None) 1
      (ex_store (ex_cion Agg_SUM Combo_PLUS [ex_A, ex_B] None))
 \<and> SumOp ex_env 3 (ex_cion Agg_SUM Combo_COND [ex_A, ex_B] None) 1
      (ex_store (ex_cion Agg_SUM Combo_COND [ex_A, ex_B] None)) = Inl CondNotSupported
 \<and> SumOp ex_env 3 (ex_cion Agg_SUM Combo_EQ [ex_A, ex_B] None) 1
      (ex_store (ex_cion Agg_SUM Combo_EQ [ex_A, ex_B] None)) = Inl EqNotSupported
 \<and> SumOp ex_env 3 (ex_cion Agg_SUM Combo_NONE [ex_A, ex_B] None) 1
      (ex_store (ex_cion Agg_SUM Combo_NONE [ex_A, ex_B] None)) = Inl NoneMultipleInputs"
proof -
  have len: "1 < length (inputs (ex_cion Agg_SUM co [ex_A, ex_B] None))" for co
    by (simp add: ex_cion_def)
  show ?thesis
    using
      SumOp_PLUS [OF len, of Combo_PLUS 1
        "ex_store (ex_cion Agg_SUM Combo_PLUS [ex_A, ex_B] None)"
        "\<lparr>shape = ex_vec, kind = ParamExpr ''B''\<rparr>" 3 ex_env 2]
      SumOp_PLUS [OF len, of Combo_COND 1
        "ex_store (ex_cion Agg_SUM Combo_COND [ex_A, ex_B] None)"
        "\<lparr>shape = ex_vec, kind = ParamExpr ''B''\<rparr>" 3 ex_env 2]
      SumOp_PLUS [OF len, of Combo_EQ 1
        "ex_store (ex_cion Agg_SUM Combo_EQ [ex_A, ex_B] None)"
        "\<lparr>shape = ex_vec, kind = ParamExpr ''B''\<rparr>" 3 ex_env 2]
      SumOp_PLUS [OF len, of Combo_NONE 1
        "ex_store (ex_cion Agg_SUM Combo_NONE [ex_A, ex_B] None)"
        "\<lparr>shape = ex_vec, kind = ParamExpr ''B''\<rparr>" 3 ex_env 2]
    by (simp add: ex_store_def deref_def ex_cion_def ex_env_def ex_vec_def ex_A_def ex_B_def
        TensorSpec_in_def TensorSpec_out_def)
qed

subsection \<open>\<open>ExtremeOp\<close>\<close>

text \<open>
  C7. \<open>ExtremeOp\<close> builds a new contraction with \<open>SUM\<close> aggregation, \<open>COND\<close> combination, the
  constraints of the forward contraction, and three inputs: the first input of the forward
  contraction (the sole input of a \<open>MIN\<close> or \<open>MAX\<close> contraction), the forward contraction
  itself indexed by the output's index spec, and \<open>dout\<close> indexed by the output's index
  spec. Its output spec has the index spec of that input and the dimensions of its shape.
  \<open>ContractionOp\<close> sends \<open>MIN\<close> and \<open>MAX\<close> contractions here (after the default slot and the
  \<open>EQ\<close> combination).
\<close>

theorem ExtremeOp_result:
  assumes "inputs c = inp # rest"
    and "ref inp = Some r"
    and "deref h r = Some e"
  shows
    "(let dop = \<lparr>agg_op = Agg_SUM, combo_op = Combo_COND,
                 inputs = [inp, TensorSpec_in p (index_spec (output c)),
                           TensorSpec_in dout (index_spec (output c))],
                 output = TensorSpec_out (index_spec inp) (dims (shape e)),
                 constraints = constraints c, use_default = None\<rparr>
      in ExtremeOp ev dout p c ix h
           = Inr (length h, h @ [\<lparr>shape = cion_shape ev h dop (layout (shape e)),
                                   kind = Contraction dop\<rparr>])
       \<and> ((agg_op c = Agg_MIN \<or> agg_op c = Agg_MAX) \<and> combo_op c \<noteq> Combo_EQ
            \<and> \<not> (use_default c \<noteq> None \<and> ix = length (inputs c))
          \<longrightarrow> ContractionOp ev dout p c ix h = ExtremeOp ev dout p c ix h))"
  using assms
  by (auto simp: ExtremeOp_def ContractionOp_def output_for_Some make_Contraction_def
      make_shared_def Let_def)

theorem ExtremeOp_result_witness:
  "ExtremeOp ex_env 3 2 (ex_cion Agg_MAX Combo_NONE [ex_A] None) 0
      (ex_store (ex_cion Agg_MAX Combo_NONE [ex_A] None))
   = Inr (4, ex_store (ex_cion Agg_MAX Combo_NONE [ex_A] None)
             @ [\<lparr>shape = ex_vec,
                 kind = Contraction
                   \<lparr>agg_op = Agg_SUM, combo_op = Combo_COND,
                    inputs = [ex_A, TensorSpec_in 2 [PolyIndex 1], TensorSpec_in 3 [PolyIndex 1]],
                    output = TensorSpec_out [PolyIndex 0] [DimExprInt 3],
                    constraints = [(PolyIndex 0, DimExprInt 3)], use_default = None\<rparr>\<rparr>])
 \<and> ContractionOp ex_env 3 2 (ex_cion Agg_MAX Combo_NONE [ex_A] None) 0
      (ex_store (ex_cion Agg_MAX Combo_NONE [ex_A] None))
   = ExtremeOp ex_env 3 2 (ex_cion Agg_MAX Combo_NONE [ex_A] None) 0
      (ex_store (ex_cion Agg_MAX Combo_NONE [ex_A] None))"
proof -
  let ?c = "ex_cion Agg_MAX Combo_NONE [ex_A] None"
  have 1: "inputs ?c = ex_A # []" and 2: "ref ex_A = Some 0"
    and 3: "deref (ex_store ?c) 0 = Some \<lparr>shape = ex_vec, kind = ParamExpr ''A''\<rparr>"
    by (simp_all add: ex_cion_def ex_A_def TensorSpec_in_def ex_store_def deref_def)
  show ?thesis
    using ExtremeOp_result [OF 1 2 3, of 2 3 ex_env 0]
    by (simp add: length_ex_store ex_cion_def ex_env_def ex_vec_def TensorSpec_in_def
        TensorSpec_out_def ex_A_def)
qed

text \<open>
  C10. \<open>ExtremeOp\<close> does not look at the position that is differentiated: it builds its
  result from \<open>inputs[0]\<close>. So for a \<open>MIN\<close> or \<open>MAX\<close> contraction, two input positions get
  the same gradient expression.
\<close>

theorem ExtremeOp_ignores_position:
  "ExtremeOp ev dout p c i h = ExtremeOp ev dout p c j h
 \<and> ((agg_op c = Agg_MIN \<or> agg_op c = Agg_MAX) \<and> i < length (inputs c) \<and> j < length (inputs c)
      \<longrightarrow> ContractionOp ev dout p c i h = ContractionOp ev dout p c j h)"
  by (auto simp: ExtremeOp_def ContractionOp_def)

theorem ExtremeOp_ignores_position_witness:
  "ExtremeOp ex_env 3 2 (ex_cion Agg_MIN Combo_NONE [ex_A, ex_B] (Some 1)) 0
      (ex_store (ex_cion Agg_MIN Combo_NONE [ex_A, ex_B] (Some 1)))
   = ExtremeOp ex_env 3 2 (ex_cion Agg_MIN Combo_NONE [ex_A, ex_B] (Some 1)) 1
      (ex_store (ex_cion Agg_MIN Combo_NONE [ex_A, ex_B] (Some 1)))
 \<and> ContractionOp ex_env 3 2 (ex_cion Agg_MIN Combo_NONE [ex_A, ex_B] (Some 1)) 0
      (ex_store (ex_cion Agg_MIN Combo_NONE [ex_A, ex_B] (Some 1)))
   = ContractionOp ex_env 3 2 (ex_cion Agg_MIN Combo_NONE [ex_A, ex_B] (Some 1)) 1
      (ex_store (ex_cion Agg_MIN Combo_NONE [ex_A, ex_B] (Some 1)))
 \<and> ContractionOp ex_env 3 2 (ex_cion Agg_MIN Combo_NONE [ex_A, ex_B] (Some 1)) 1
      (ex_store (ex_cion Agg_MIN Combo_NONE [ex_A, ex_B] (Some 1)))
   = Inr (4, ex_store (ex_cion Agg_MIN Combo_NONE [ex_A, ex_B] (Some 1))
             @ [\<lparr>shape = ex_vec,
                 kind = Contraction
                   \<lparr>agg_op = Agg_SUM, combo_op = Combo_COND,
                    inputs = [ex_A, TensorSpec_in 2 [PolyIndex 1], TensorSpec_in 3 [PolyIndex 1]],
                    output = TensorSpec_out [PolyIndex 0] [DimExprInt 3],
                    constraints = [(PolyIndex 0, DimExprInt 3)], use_default = None\<rparr>\<rparr>])"
  using ExtremeOp_ignores_position [of ex_env 3 2 "ex_cion Agg_MIN Combo_NONE [ex_A, ex_B] (Some 1)" 0
      "ex_store (ex_cion Agg_MIN Combo_NONE [ex_A, ex_B] (Some 1))" 1]
  by (simp add: ex_cion_def ContractionOp_def ExtremeOp_def output_for_def deref_def ex_store_def
      ex_A_def TensorSpec_in_def TensorSpec_out_def dims_as_exprs_def make_Contraction_def
      make_shared_def ex_env_def ex_vec_def)

subsection \<open>\<open>ComputeGradients\<close>\<close>

lemma ComputeUses_ex_graph:
  "ComputeUses_ctor ex_graph 1
     = Inr \<lparr>cu_stack = [], cu_seen = {0, 1},
            cu_uses = [0 \<mapsto> [\<lparr>expr = 1, idx = 0\<rparr>, \<lparr>expr = 1, idx = 1\<rparr>]]\<rparr>"
  by (simp add: ComputeUses_ctor_def ex_graph_def deref_def Accept_def Push_def insert_commute)

lemma ComputeUses_ex_wrapper:
  "ComputeUses_ctor (ex_store c @ [\<lparr>shape = scalar_shape, kind = Contraction ex_wrapper\<rparr>]) 4
     = Inr \<lparr>cu_stack = [], cu_seen = {0, 4}, cu_uses = [0 \<mapsto> [\<lparr>expr = 4, idx = 0\<rparr>]]\<rparr>"
  by (simp add: ComputeUses_ctor_def ex_store_def ex_wrapper_def deref_def Accept_def Push_def
      Visit_ContractionExpr_def TensorSpec_in_def insert_commute)

lemma Gradient_ctor_ex_grad: "Gradient_ctor 1 ex_graph = Inr ex_grad"
proof -
  have "length ex_graph = 3"
    by (simp add: ex_graph_def)
  with ComputeUses_ex_graph show ?thesis
    by (simp add: Gradient_ctor_def make_FloatConst_def make_shared_def ex_grad_def)
qed

text \<open>
  The use map that the constructor of \<open>Gradient\<close> computes has no empty entry, and each of
  its keys is reached from the seed.
\<close>

lemma Push_no_empty: "no_empty_entry cu \<Longrightarrow> no_empty_entry (Push user used i cu)"
  by (simp add: no_empty_entry_def Push_def)

lemma Visit_CallExpr_no_empty:
  "no_empty_entry cu \<Longrightarrow> no_empty_entry (Visit_CallExpr user i as cu)"
  by (induction as arbitrary: i cu) (simp_all add: Push_no_empty)

lemma Visit_inputs_no_empty:
  "Visit_inputs user i xs cu = Inr cu' \<Longrightarrow> no_empty_entry cu \<Longrightarrow> no_empty_entry cu'"
  by (induction xs arbitrary: i cu) (auto simp: Push_no_empty split: option.splits)

lemma Accept_no_empty:
  "Accept p e cu = Inr cu' \<Longrightarrow> no_empty_entry cu \<Longrightarrow> no_empty_entry cu'"
  by (auto simp: Accept_def Visit_ContractionExpr_def Visit_CallExpr_no_empty Push_no_empty
      split: ExprKind.splits sum.splits option.splits dest: Visit_inputs_no_empty)

lemma ComputeUses_loop_no_empty:
  "ComputeUses_loop h cu = Inr cu' \<Longrightarrow> no_empty_entry cu \<Longrightarrow> no_empty_entry cu'"
proof (induction h cu rule: ComputeUses_loop.induct)
  case (1 h cu)
  show ?case
  proof (cases "cu_stack cu")
    case Nil
    with "1.prems" show ?thesis
      by (simp add: ComputeUses_loop.simps [of h cu])
  next
    case (Cons e rest)
    show ?thesis
    proof (cases "e \<in> cu_seen cu")
      case True
      with Cons "1.prems" have "ComputeUses_loop h (cu\<lparr>cu_stack := rest\<rparr>) = Inr cu'"
        by (simp add: ComputeUses_loop.simps [of h cu])
      moreover from "1.prems"(2) have "no_empty_entry (cu\<lparr>cu_stack := rest\<rparr>)"
        by (simp add: no_empty_entry_def)
      ultimately show ?thesis
        using Cons True by (rule "1.IH"(1) [rotated 2])
    next
      case False
      with Cons "1.prems"(1) obtain ex cu1 where ex: "deref h e = Some ex"
        and acc: "Accept e ex (cu\<lparr>cu_stack := rest, cu_seen := insert e (cu_seen cu)\<rparr>) = Inr cu1"
        and rest: "ComputeUses_loop h cu1 = Inr cu'"
        by (auto simp: ComputeUses_loop.simps [of h cu] split: option.splits sum.splits)
      from "1.prems"(2)
      have "no_empty_entry (cu\<lparr>cu_stack := rest, cu_seen := insert e (cu_seen cu)\<rparr>)"
        by (simp add: no_empty_entry_def)
      with acc have "no_empty_entry cu1"
        by (rule Accept_no_empty)
      with rest show ?thesis
        using Cons False ex acc by (rule "1.IH"(2) [rotated 4])
    qed
  qed
qed

lemma Gradient_ctor_no_empty_entry:
  assumes "Gradient_ctor val h = Inr g"
  shows "cu_uses (gr_uses g) n \<noteq> Some []"
proof -
  from assms have "ComputeUses_ctor h val = Inr (gr_uses g)"
    by (auto simp: Gradient_ctor_def make_FloatConst_def make_shared_def split: sum.splits)
  then have "ComputeUses_loop h \<lparr>cu_stack = [val], cu_seen = {}, cu_uses = Map.empty\<rparr>
      = Inr (gr_uses g)"
    by (simp only: ComputeUses_ctor_def)
  moreover have "no_empty_entry \<lparr>cu_stack = [val], cu_seen = {}, cu_uses = Map.empty\<rparr>"
    by (simp add: no_empty_entry_def)
  ultimately have "no_empty_entry (gr_uses g)"
    by (rule ComputeUses_loop_no_empty)
  then show ?thesis
    by (simp add: no_empty_entry_def)
qed

lemma Push_confined: "confined R cu \<Longrightarrow> used \<in> R \<Longrightarrow> confined R (Push user used i cu)"
  by (auto simp: confined_def Push_def)

lemma Visit_CallExpr_confined:
  "confined R cu \<Longrightarrow> set as \<subseteq> R \<Longrightarrow> confined R (Visit_CallExpr user i as cu)"
  by (induction as arbitrary: i cu) (simp_all add: Push_confined)

lemma Visit_inputs_confined:
  "Visit_inputs user i xs cu = Inr cu' \<Longrightarrow> confined R cu \<Longrightarrow> {r. \<exists>x\<in>set xs. ref x = Some r} \<subseteq> R
   \<Longrightarrow> confined R cu'"
proof (induction xs arbitrary: i cu)
  case Nil
  then show ?case by simp
next
  case (Cons x xs)
  from Cons.prems(1) obtain r where r: "ref x = Some r"
    and rest: "Visit_inputs user (Suc i) xs (Push user r i cu) = Inr cu'"
    by (auto split: option.splits)
  from r Cons.prems(3) have "r \<in> R" by auto
  with Cons.prems(2) have "confined R (Push user r i cu)"
    by (rule Push_confined)
  moreover from Cons.prems(3) have "{r. \<exists>x\<in>set xs. ref x = Some r} \<subseteq> R"
    by auto
  ultimately show ?case
    using rest by (rule Cons.IH [rotated])
qed

lemma Accept_confined:
  assumes "Accept p e cu = Inr cu'" and "confined R cu" and "operands e \<subseteq> R"
  shows "confined R cu'"
proof (cases "kind e")
  case (CallExpr fn args)
  with assms show ?thesis
    by (auto simp: Accept_def operands_def intro: Visit_CallExpr_confined)
next
  case (Contraction c)
  with assms(1) obtain cu1 where v: "Visit_inputs p 0 (inputs c) cu = Inr cu1"
    and d: "cu' = (case use_default c of None \<Rightarrow> cu1 | Some d \<Rightarrow> Push p d (length (inputs c)) cu1)"
    by (auto simp: Accept_def Visit_ContractionExpr_def split: sum.splits option.splits)
  from assms(3) Contraction have ins: "{r. \<exists>x\<in>set (inputs c). ref x = Some r} \<subseteq> R"
    and dflt: "set_option (use_default c) \<subseteq> R"
    by (auto simp: operands_def)
  from v assms(2) ins have "confined R cu1"
    by (rule Visit_inputs_confined)
  with d dflt show ?thesis
    by (auto simp: Push_confined split: option.splits)
qed (use assms in \<open>auto simp: Accept_def\<close>)

lemma ComputeUses_loop_confined:
  "ComputeUses_loop h cu = Inr cu' \<Longrightarrow> confined R cu
   \<Longrightarrow> (\<And>p e. p \<in> R \<Longrightarrow> deref h p = Some e \<Longrightarrow> operands e \<subseteq> R)
   \<Longrightarrow> confined R cu'"
proof (induction h cu rule: ComputeUses_loop.induct)
  case (1 h cu)
  note closed = "1.prems"(3)
  show ?case
  proof (cases "cu_stack cu")
    case Nil
    with "1.prems"(1,2) show ?thesis
      by (simp add: ComputeUses_loop.simps [of h cu])
  next
    case (Cons e rest)
    from "1.prems"(2) Cons have e: "e \<in> R"
      by (simp add: confined_def)
    show ?thesis
    proof (cases "e \<in> cu_seen cu")
      case True
      with Cons "1.prems"(1) have "ComputeUses_loop h (cu\<lparr>cu_stack := rest\<rparr>) = Inr cu'"
        by (simp add: ComputeUses_loop.simps [of h cu])
      moreover from "1.prems"(2) Cons have "confined R (cu\<lparr>cu_stack := rest\<rparr>)"
        by (simp add: confined_def)
      ultimately show ?thesis
        using closed by (rule "1.IH"(1) [OF Cons True])
    next
      case False
      with Cons "1.prems"(1) obtain ex cu1 where ex: "deref h e = Some ex"
        and acc: "Accept e ex (cu\<lparr>cu_stack := rest, cu_seen := insert e (cu_seen cu)\<rparr>) = Inr cu1"
        and rest: "ComputeUses_loop h cu1 = Inr cu'"
        by (auto simp: ComputeUses_loop.simps [of h cu] split: option.splits sum.splits)
      from "1.prems"(2) Cons
      have "confined R (cu\<lparr>cu_stack := rest, cu_seen := insert e (cu_seen cu)\<rparr>)"
        by (simp add: confined_def)
      with acc have "confined R cu1"
        using closed [OF e ex] by (rule Accept_confined)
      with rest show ?thesis
        using closed by (rule "1.IH"(2) [OF Cons False ex acc])
    qed
  qed
qed

lemma Gradient_ctor_entries_reachable:
  assumes "Gradient_ctor val h = Inr g" and "cu_uses (gr_uses g) t \<noteq> None"
  shows "(val, t) \<in> (edges h)\<^sup>*"
proof -
  let ?R = "{n. (val, n) \<in> (edges h)\<^sup>*}"
  from assms(1) have "ComputeUses_ctor h val = Inr (gr_uses g)"
    by (auto simp: Gradient_ctor_def make_FloatConst_def make_shared_def split: sum.splits)
  then have "ComputeUses_loop h \<lparr>cu_stack = [val], cu_seen = {}, cu_uses = Map.empty\<rparr>
      = Inr (gr_uses g)"
    by (simp only: ComputeUses_ctor_def)
  moreover have "confined ?R \<lparr>cu_stack = [val], cu_seen = {}, cu_uses = Map.empty\<rparr>"
    by (simp add: confined_def)
  moreover have "operands e \<subseteq> ?R" if "p \<in> ?R" "deref h p = Some e" for p e
  proof
    fix c
    assume "c \<in> operands e"
    with that(2) have "(p, c) \<in> edges h"
      by (auto simp: edges_def)
    with that(1) show "c \<in> ?R"
      by (simp add: rtrancl_into_rtrancl)
  qed
  ultimately have "confined ?R (gr_uses g)"
    by (rule ComputeUses_loop_confined)
  with assms(2) show ?thesis
    by (auto simp: confined_def)
qed

text \<open>
  A node without an entry makes \<open>uses_.at\<close> throw; the zero of \<open>GetDerivative\<close> is returned
  only for a node with an empty entry, which the constructor never makes.
\<close>

lemma GetDerivative_no_entry:
  "gr_seen g t = None \<Longrightarrow> cu_uses (gr_uses g) t = None
   \<Longrightarrow> GetDerivative (Suc k) ev t g = Some (Inl OutOfRange)"
  by (simp add: uses_def)

lemma GetDerivative_empty_entry:
  "gr_seen g t = None \<Longrightarrow> cu_uses (gr_uses g) t = Some []
   \<Longrightarrow> GetDerivative (Suc k) ev t g
       = Some (Inr (length (gr_store g),
                    g\<lparr>gr_store := gr_store g @ [\<lparr>shape = scalar_shape, kind = FloatConst 0\<rparr>],
                      gr_seen := (gr_seen g)(t \<mapsto> length (gr_store g))\<rparr>))"
  by (simp add: uses_def finish_def make_FloatConst_def make_shared_def)

lemma ex_graph_reachable:
  assumes "(1, n) \<in> (edges ex_graph)\<^sup>*"
  shows "n = 0 \<or> n = 1"
  using assms
proof (induction rule: rtrancl_induct)
  case base
  show ?case by simp
next
  case (step a b)
  then show ?case
    by (auto simp: edges_def operands_def deref_def ex_graph_def split: if_splits)
qed

text \<open>
  C1. The claim holds of the intention of the code, not of the code. A target that is not
  reached from the seed (the loss, or its wrapper) has no entry in the use map and is not
  in the cache, so \<open>uses_.at\<close> throws \<open>std::out_of_range\<close> before the zero of
  \<open>GetDerivative\<close> can be built: \<open>ComputeGradients\<close> fails for every such target, at every
  depth. An instance: the loss \<open>y = add(x, x)\<close> and the unrelated parameter \<open>z\<close> as target.
\<close>

theorem unreachable_target_throws:
  assumes seed: "wrap_loss ev loss h = Inr (val, h1)"
    and grad: "Gradient_ctor val h1 = Inr g"
    and t: "(val, t) \<notin> (edges h1)\<^sup>*"
  shows "ComputeGradients (Suc k) ev (t # ts) loss h = Some (Inl OutOfRange)"
proof -
  from t have ne: "t \<noteq> val"
    by auto
  from grad have "gr_seen g = [val \<mapsto> length h1]"
    by (auto simp: Gradient_ctor_def make_FloatConst_def make_shared_def split: sum.splits)
  with ne have "gr_seen g t = None"
    by simp
  moreover from Gradient_ctor_entries_reachable [OF grad, of t] t
  have "cu_uses (gr_uses g) t = None"
    by (cases "cu_uses (gr_uses g) t") auto
  ultimately have "GetDerivative (Suc k) ev t g = Some (Inl OutOfRange)"
    by (rule GetDerivative_no_entry)
  then have "ret_loop (Suc k) ev (t # ts) g = Some (Inl OutOfRange)"
    by (simp only: ret_loop.simps option.case sum.case)
  with seed grad show ?thesis
    by (simp only: ComputeGradients_def option.case sum.case prod.case)
qed

theorem unreachable_target_throws_witness:
  "ComputeGradients (Suc 0) ex_env [2] 1 ex_graph = Some (Inl OutOfRange)"
proof -
  have seed: "wrap_loss ex_env 1 ex_graph = Inr (1, ex_graph)"
    by (simp add: wrap_loss_def deref_def ex_graph_def scalar_shape_def)
  have far: "(1, 2) \<notin> (edges ex_graph)\<^sup>*"
    using ex_graph_reachable [of 2] by auto
  show ?thesis
    using unreachable_target_throws [OF seed Gradient_ctor_ex_grad far, of 0 "[]"] by simp
qed

text \<open>
  C8. \<open>ComputeGradients\<close> seeds the propagator. A loss of rank zero is the seed itself: the
  cache maps it to a new constant \<open>1.0\<close>, which \<open>GetDerivative\<close> returns for the loss. A
  loss of nonzero rank is wrapped in a new contraction with \<open>SUM\<close> aggregation, \<open>NONE\<close>
  combination, the loss as its single input, indexed by the index variables
  \<open>0, ..., rank - 1\<close>, and an output spec without index variables or dimensions; the use
  map is computed from the wrapper and the cache maps the wrapper to a new constant
  \<open>1.0\<close>. In both cases \<open>ComputeGradients\<close> is the loop over the targets from that state.
\<close>

theorem ComputeGradients_seed:
  assumes "deref h loss = Some le"
  shows
   "(dims (shape le) = [] \<and> ComputeUses_ctor h loss = Inr cu \<longrightarrow>
      (let g = \<lparr>gr_store = h @ [\<lparr>shape = scalar_shape, kind = FloatConst 1\<rparr>],
                gr_uses = cu, gr_seen = [loss \<mapsto> length h]\<rparr>
       in ComputeGradients k ev wrts loss h
            = (case ret_loop k ev wrts g of
                 None \<Rightarrow> None
               | Some (Inl e) \<Rightarrow> Some (Inl e)
               | Some (Inr (ret, g')) \<Rightarrow> Some (Inr (ret, gr_store g')))
        \<and> GetDerivative (Suc k) ev loss g = Some (Inr (length h, g))
        \<and> ComputeGradients (Suc k) ev [loss] loss h = Some (Inr ([length h], gr_store g))))
  \<and> (dims (shape le) \<noteq> [] \<longrightarrow>
      (let cion = \<lparr>agg_op = Agg_SUM, combo_op = Combo_NONE,
                   inputs = [TensorSpec_in loss (map PolyIndex [0..<length (dims (shape le))])],
                   output = TensorSpec_out [] [], constraints = [], use_default = None\<rparr>;
           h1 = h @ [\<lparr>shape = cion_shape ev h cion [], kind = Contraction cion\<rparr>]
       in wrap_loss ev loss h = Inr (length h, h1)
        \<and> (ComputeUses_ctor h1 (length h) = Inr cu \<longrightarrow>
             (let g = \<lparr>gr_store = h1 @ [\<lparr>shape = scalar_shape, kind = FloatConst 1\<rparr>],
                       gr_uses = cu, gr_seen = [length h \<mapsto> Suc (length h)]\<rparr>
              in Gradient_ctor (length h) h1 = Inr g
               \<and> GetDerivative (Suc k) ev (length h) g = Some (Inr (Suc (length h), g))
               \<and> ComputeGradients k ev wrts loss h
                    = (case ret_loop k ev wrts g of
                         None \<Rightarrow> None
                       | Some (Inl e) \<Rightarrow> Some (Inl e)
                       | Some (Inr (ret, g')) \<Rightarrow> Some (Inr (ret, gr_store g')))))))"
  using assms
  by (auto simp: ComputeGradients_def wrap_loss_def Gradient_ctor_def make_FloatConst_def
      make_Contraction_def make_shared_def Let_def)

theorem ComputeGradients_seed_witness:
  "ComputeGradients 1 ex_env [1] 1 ex_graph
     = Some (Inr ([3], ex_graph @ [\<lparr>shape = scalar_shape, kind = FloatConst 1\<rparr>]))
 \<and> wrap_loss ex_env 0 (ex_store (ex_cion Agg_MAX Combo_NONE [ex_A] None))
     = Inr (4, ex_store (ex_cion Agg_MAX Combo_NONE [ex_A] None) @ [\<lparr>shape = scalar_shape, kind = Contraction ex_wrapper\<rparr>])
 \<and> Gradient_ctor 4 (ex_store (ex_cion Agg_MAX Combo_NONE [ex_A] None) @ [\<lparr>shape = scalar_shape, kind = Contraction ex_wrapper\<rparr>])
     = Inr \<lparr>gr_store = ex_store (ex_cion Agg_MAX Combo_NONE [ex_A] None) @ [\<lparr>shape = scalar_shape, kind = Contraction ex_wrapper\<rparr>,
                                        \<lparr>shape = scalar_shape, kind = FloatConst 1\<rparr>],
            gr_uses = \<lparr>cu_stack = [], cu_seen = {0, 4}, cu_uses = [0 \<mapsto> [\<lparr>expr = 4, idx = 0\<rparr>]]\<rparr>,
            gr_seen = [4 \<mapsto> 5]\<rparr>"
proof -
  have d1: "deref ex_graph 1 = Some \<lparr>shape = scalar_shape, kind = CallExpr ''add'' [0, 0]\<rparr>"
    by (simp add: ex_graph_def deref_def)
  have d2: "deref (ex_store (ex_cion Agg_MAX Combo_NONE [ex_A] None)) 0 = Some \<lparr>shape = ex_vec, kind = ParamExpr ''A''\<rparr>"
    by (simp add: ex_store_def deref_def)
  show ?thesis
    using
      ComputeGradients_seed [OF d1, where k = 0 and ev = ex_env and wrts = "[1]"
        and cu = "\<lparr>cu_stack = [], cu_seen = {0, 1},
                   cu_uses = [0 \<mapsto> [\<lparr>expr = 1, idx = 0\<rparr>, \<lparr>expr = 1, idx = 1\<rparr>]]\<rparr>"]
      ComputeGradients_seed [OF d2, where k = 0 and ev = ex_env and wrts = "[]"
        and cu = "\<lparr>cu_stack = [], cu_seen = {0, 4}, cu_uses = [0 \<mapsto> [\<lparr>expr = 4, idx = 0\<rparr>]]\<rparr>"]
      ComputeUses_ex_graph ComputeUses_ex_wrapper [of "ex_cion Agg_MAX Combo_NONE [ex_A] None"]
    by (simp add: length_ex_store ex_vec_def ex_wrapper_def ex_env_def scalar_shape_def
        TensorSpec_out_def ex_graph_def Let_def)
qed

subsection \<open>The cache of \<open>GetDerivative\<close>\<close>

lemma use_dop_Inr:
  assumes "use_dop rec ev u g = Some (Inr (dop, g'))"
  obtains dout g1 where "rec (expr u) g = Some (Inr (dout, g1))"
    and "gr_seen g' = gr_seen g1" and "gr_uses g' = gr_uses g1"
  using assms by (auto simp: use_dop_def split: option.splits sum.splits)

lemma finish_Inr:
  assumes "finish ev e tot g = Inr (r, g')"
  shows "gr_uses g' = gr_uses g"
    and "gr_seen g' = (case gr_seen g e of None \<Rightarrow> (gr_seen g)(e \<mapsto> r) | Some old \<Rightarrow> gr_seen g)"
  using assms by (auto simp: finish_def split: option.splits sum.splits if_splits prod.splits)

lemma uses_loop_invariant:
  assumes step: "\<And>m g r g'. J (gr_seen g) (gr_uses g) \<Longrightarrow> Q m \<Longrightarrow> rec m g = Some (Inr (r, g'))
                   \<Longrightarrow> R m \<and> J (gr_seen g') (gr_uses g')"
    and "J (gr_seen g) (gr_uses g)"
    and "\<forall>u\<in>set us. Q (expr u)"
    and "uses_loop rec ev us tot g = Some (Inr (tot', g'))"
  shows "(\<forall>u\<in>set us. R (expr u)) \<and> J (gr_seen g') (gr_uses g')"
  using assms(2-)
proof (induction us arbitrary: tot g)
  case Nil
  then show ?case by simp
next
  case (Cons u us)
  from Cons.prems(3) obtain dop g1 where dop: "use_dop rec ev u g = Some (Inr (dop, g1))"
    by (auto split: option.splits sum.splits)
  then obtain dout g0 where g0: "rec (expr u) g = Some (Inr (dout, g0))"
    and same: "gr_seen g1 = gr_seen g0" "gr_uses g1 = gr_uses g0"
    by (rule use_dop_Inr)
  from step [OF Cons.prems(1) _ g0] Cons.prems(2) same
  have u: "R (expr u)" and J1: "J (gr_seen g1) (gr_uses g1)"
    by simp_all
  show ?case
  proof (cases tot)
    case None
    with Cons.prems(3) dop have "uses_loop rec ev us (Some dop) g1 = Some (Inr (tot', g'))"
      by simp
    from Cons.IH [OF J1 _ this] Cons.prems(2) u show ?thesis
      by simp
  next
    case (Some t)
    obtain s h where mk: "MakeCall ev ''add'' [t, dop] (gr_store g1) = (s, h)"
      by (cases "MakeCall ev ''add'' [t, dop] (gr_store g1)")
    with Cons.prems(3) dop Some
    have "uses_loop rec ev us (Some s) (g1\<lparr>gr_store := h\<rparr>) = Some (Inr (tot', g'))"
      by simp
    moreover have "J (gr_seen (g1\<lparr>gr_store := h\<rparr>)) (gr_uses (g1\<lparr>gr_store := h\<rparr>))"
      using J1 by simp
    ultimately show ?thesis
      using Cons.IH [of "g1\<lparr>gr_store := h\<rparr>" "Some s"] Cons.prems(2) u by simp
  qed
qed

lemma GetDerivative_Suc_None:
  assumes "GetDerivative (Suc k) ev m g = Some (Inr (r, g'))" and "gr_seen g m = None"
  obtains us tot g1 where "cu_uses (gr_uses g) m = Some us"
    and "uses_loop (GetDerivative k ev) ev us None g = Some (Inr (tot, g1))"
    and "finish ev m tot g1 = Inr (r, g')"
  using assms by (auto simp: uses_def split: option.splits sum.splits)

lemma avoids_upd: "avoids W sn cu \<Longrightarrow> m \<notin> W \<Longrightarrow> avoids W (sn(m \<mapsto> r)) cu"
  by (auto simp: avoids_def)

lemma blocked_upd: "blocked B sn cu \<Longrightarrow> m \<notin> B \<Longrightarrow> blocked B (sn(m \<mapsto> r)) cu"
  by (auto simp: blocked_def)

lemma GetDerivative_avoids:
  "GetDerivative k ev m g = Some (Inr (r, g')) \<Longrightarrow> avoids W (gr_seen g) (gr_uses g) \<Longrightarrow> m \<notin> W
   \<Longrightarrow> avoids W (gr_seen g') (gr_uses g')"
proof (induction k arbitrary: m g r g')
  case 0
  then show ?case by simp
next
  case (Suc k)
  show ?case
  proof (cases "gr_seen g m")
    case (Some d)
    with Suc.prems show ?thesis by simp
  next
    case None
    with Suc.prems(1) obtain us tot g1 where us: "cu_uses (gr_uses g) m = Some us"
      and loop: "uses_loop (GetDerivative k ev) ev us None g = Some (Inr (tot, g1))"
      and fin: "finish ev m tot g1 = Inr (r, g')"
      by (rule GetDerivative_Suc_None)
    from Suc.prems(2,3) None us have out: "\<forall>u\<in>set us. expr u \<notin> W"
      by (auto simp: avoids_def)
    have "(\<forall>u\<in>set us. True) \<and> avoids W (gr_seen g1) (gr_uses g1)"
      using Suc.prems(2) out loop
      by (rule uses_loop_invariant [where Q = "\<lambda>m. m \<notin> W" and J = "avoids W", rotated])
        (simp add: Suc.IH)
    then have a1: "avoids W (gr_seen g1) (gr_uses g1)" by simp
    from finish_Inr [OF fin] a1 Suc.prems(3) show ?thesis
      by (auto simp: avoids_upd split: option.splits)
  qed
qed

lemma GetDerivative_blocked:
  "GetDerivative k ev m g = Some (Inr (r, g')) \<Longrightarrow> blocked B (gr_seen g) (gr_uses g)
   \<Longrightarrow> m \<notin> B \<and> blocked B (gr_seen g') (gr_uses g')"
proof (induction k arbitrary: m g r g')
  case 0
  then show ?case by simp
next
  case (Suc k)
  show ?case
  proof (cases "gr_seen g m")
    case (Some d)
    with Suc.prems show ?thesis by (auto simp: blocked_def)
  next
    case None
    with Suc.prems(1) obtain us tot g1 where us: "cu_uses (gr_uses g) m = Some us"
      and loop: "uses_loop (GetDerivative k ev) ev us None g = Some (Inr (tot, g1))"
      and fin: "finish ev m tot g1 = Inr (r, g')"
      by (rule GetDerivative_Suc_None)
    have "\<forall>u\<in>set us. True"
      by simp
    with Suc.prems(2)
    have "(\<forall>u\<in>set us. expr u \<notin> B) \<and> blocked B (gr_seen g1) (gr_uses g1)"
      using loop
      by (rule uses_loop_invariant [where Q = "\<lambda>m. True" and J = "blocked B", rotated])
        (simp add: Suc.IH)
    then have out: "\<forall>u\<in>set us. expr u \<notin> B" and b1: "blocked B (gr_seen g1) (gr_uses g1)"
      by simp_all
    from out us Suc.prems(2) have m: "m \<notin> B"
      by (auto simp: blocked_def)
    from finish_Inr [OF fin] b1 m show ?thesis
      by (auto simp: blocked_upd split: option.splits)
  qed
qed

text \<open>
  While the uses of an uncached node \<open>n\<close> are processed, \<open>n\<close> does not enter the cache. Take
  the set \<open>W\<close> of the uncached nodes from which \<open>n\<close> is reached through uncached nodes. If a
  use of \<open>n\<close> is in \<open>W\<close>, the use map has a cycle through \<open>n\<close> and the call on \<open>n\<close> does not
  return; otherwise the calls for the uses of \<open>n\<close> stay outside \<open>W\<close>.
\<close>

lemma uses_loop_keeps_uncached:
  assumes n: "gr_seen g n = None" and us: "cu_uses (gr_uses g) n = Some us"
    and ret: "GetDerivative (Suc k) ev n g = Some (Inr (r, g'))"
    and loop: "uses_loop (GetDerivative k ev) ev us None g = Some (Inr (tot, g1))"
  shows "gr_seen g1 n = None"
proof -
  define W where "W = {m. (m, n) \<in> (pending g)\<^sup>*}"
  have nW: "n \<in> W"
    by (simp add: W_def)
  have unc: "gr_seen g m = None" if "m \<in> W" for m
  proof -
    from that have "(m, n) \<in> (pending g)\<^sup>*" by (simp add: W_def)
    then show ?thesis
      using n by (cases rule: converse_rtranclE) (auto simp: pending_def)
  qed
  then have dom: "W \<inter> dom (gr_seen g) = {}"
    by auto
  show ?thesis
  proof (cases "\<exists>u\<in>set us. expr u \<in> W")
    case True
    have "\<exists>us u. cu_uses (gr_uses g) b = Some us \<and> u \<in> set us \<and> expr u \<in> W" if b: "b \<in> W" for b
    proof (cases "b = n")
      case True
      with us \<open>\<exists>u\<in>set us. expr u \<in> W\<close> show ?thesis by auto
    next
      case False
      from b have "(b, n) \<in> (pending g)\<^sup>*" by (simp add: W_def)
      then obtain c where "(b, c) \<in> pending g" "(c, n) \<in> (pending g)\<^sup>*"
        using False by (cases rule: converse_rtranclE) auto
      then show ?thesis
        by (auto simp: pending_def W_def)
    qed
    with dom have "blocked W (gr_seen g) (gr_uses g)"
      by (simp add: blocked_def)
    from GetDerivative_blocked [OF ret this] nW show ?thesis
      by simp
  next
    case False
    have "expr u \<notin> W"
      if "m \<notin> W" "gr_seen g m = None" "cu_uses (gr_uses g) m = Some vs" "u \<in> set vs" for m vs u
    proof
      assume w: "expr u \<in> W"
      then have "(expr u, n) \<in> (pending g)\<^sup>*" by (simp add: W_def)
      moreover from that(2-) unc [OF w] have "(m, expr u) \<in> pending g"
        by (auto simp: pending_def)
      ultimately have "m \<in> W"
        by (simp add: W_def converse_rtrancl_into_rtrancl)
      with that(1) show False by simp
    qed
    with dom have a: "avoids W (gr_seen g) (gr_uses g)"
      unfolding avoids_def by blast
    from False have out: "\<forall>u\<in>set us. expr u \<notin> W"
      by simp
    have "(\<forall>u\<in>set us. True) \<and> avoids W (gr_seen g1) (gr_uses g1)"
      using a out loop
      by (rule uses_loop_invariant [where Q = "\<lambda>m. m \<notin> W" and J = "avoids W", rotated])
        (simp add: GetDerivative_avoids)
    with nW show ?thesis
      by (auto simp: avoids_def)
  qed
qed

lemma GetDerivative_caches_result:
  assumes "GetDerivative k ev n g = Some (Inr (r, g'))"
  shows "gr_seen g' n = Some r"
proof (cases k)
  case 0
  with assms show ?thesis by simp
next
  case (Suc j)
  show ?thesis
  proof (cases "gr_seen g n")
    case (Some d)
    with assms Suc show ?thesis by simp
  next
    case None
    from assms Suc have ret: "GetDerivative (Suc j) ev n g = Some (Inr (r, g'))"
      by simp
    from ret None obtain us tot g1 where us: "cu_uses (gr_uses g) n = Some us"
      and loop: "uses_loop (GetDerivative j ev) ev us None g = Some (Inr (tot, g1))"
      and fin: "finish ev n tot g1 = Inr (r, g')"
      by (rule GetDerivative_Suc_None)
    from uses_loop_keeps_uncached [OF None us ret loop] finish_Inr(2) [OF fin]
    show ?thesis by simp
  qed
qed

text \<open>An entry of the cache is never changed or removed.\<close>

lemma GetDerivative_keeps_cache:
  "GetDerivative k ev m g = Some (Inr (r, g')) \<Longrightarrow> sn0 \<subseteq>\<^sub>m gr_seen g \<Longrightarrow> sn0 \<subseteq>\<^sub>m gr_seen g'"
proof (induction k arbitrary: m g r g')
  case 0
  then show ?case by simp
next
  case (Suc k)
  show ?case
  proof (cases "gr_seen g m")
    case (Some d)
    with Suc.prems show ?thesis by simp
  next
    case None
    with Suc.prems(1) obtain us tot g1 where us: "cu_uses (gr_uses g) m = Some us"
      and loop: "uses_loop (GetDerivative k ev) ev us None g = Some (Inr (tot, g1))"
      and fin: "finish ev m tot g1 = Inr (r, g')"
      by (rule GetDerivative_Suc_None)
    have "\<forall>u\<in>set us. True"
      by simp
    with Suc.prems(2) have "(\<forall>u\<in>set us. True) \<and> sn0 \<subseteq>\<^sub>m gr_seen g1"
      using loop
      by (rule uses_loop_invariant [where Q = "\<lambda>m. True" and J = "\<lambda>sn cu. sn0 \<subseteq>\<^sub>m sn", rotated])
        (simp add: Suc.IH)
    then have "sn0 \<subseteq>\<^sub>m gr_seen g1" by simp
    with finish_Inr(2) [OF fin] show ?thesis
      by (auto simp: map_le_def dom_def split: option.splits)
  qed
qed

lemma ret_loop_keeps_cache:
  "ret_loop k ev ws g = Some (Inr (rs, g')) \<Longrightarrow> sn0 \<subseteq>\<^sub>m gr_seen g \<Longrightarrow> sn0 \<subseteq>\<^sub>m gr_seen g'"
proof (induction ws arbitrary: g rs)
  case Nil
  then show ?case by simp
next
  case (Cons w ws)
  from Cons.prems(1) obtain d g1 ds where d: "GetDerivative k ev w g = Some (Inr (d, g1))"
    and rest: "ret_loop k ev ws g1 = Some (Inr (ds, g'))"
    by (auto split: option.splits sum.splits)
  from Cons.IH [OF rest GetDerivative_keeps_cache [OF d Cons.prems(2)]] show ?case .
qed

lemma Gradient_ctor_ex_grad_w: "Gradient_ctor 3 ex_graph_w = Inr (ex_grad_w [] [3 \<mapsto> 4])"
  by (simp add: Gradient_ctor_def ComputeUses_ctor_def make_FloatConst_def make_shared_def
      ex_grad_w_def ex_uses_w_def ex_graph_w_def ex_graph_def deref_def Accept_def Push_def
      insert_commute eval_nat_numeral)

text \<open>A call that returns within some depth returns the same within any greater depth.\<close>

lemma uses_loop_mono:
  assumes "\<And>m g res. rec m g = Some res \<Longrightarrow> rec' m g = Some res"
    and "uses_loop rec ev us tot g = Some res"
  shows "uses_loop rec' ev us tot g = Some res"
  using assms(2)
proof (induction us arbitrary: tot g)
  case Nil
  then show ?case by simp
next
  case (Cons u us)
  from Cons.prems obtain d where d: "use_dop rec ev u g = Some d"
    by (auto split: option.splits)
  then have d': "use_dop rec' ev u g = Some d"
    by (auto simp: use_dop_def assms(1) split: option.splits sum.splits)
  show ?case
    using Cons.prems d d' Cons.IH
    by (auto split: sum.splits option.splits prod.splits)
qed

lemma GetDerivative_more_depth:
  "GetDerivative k ev m g = Some res \<Longrightarrow> GetDerivative (Suc k) ev m g = Some res"
proof (induction k arbitrary: m g res)
  case 0
  then show ?case by simp
next
  case (Suc k)
  show ?case
  proof (cases "gr_seen g m")
    case (Some d)
    with Suc.prems show ?thesis by simp
  next
    case None
    show ?thesis
    proof (cases "uses (gr_uses g) m")
      case (Inl e)
      with None Suc.prems show ?thesis by simp
    next
      case (Inr us)
      with None Suc.prems obtain lres where l: "uses_loop (GetDerivative k ev) ev us None g = Some lres"
        by (auto split: option.splits)
      then have "uses_loop (GetDerivative (Suc k) ev) ev us None g = Some lres"
        by (rule uses_loop_mono [rotated]) (rule Suc.IH)
      with l None Inr Suc.prems show ?thesis
        by simp
    qed
  qed
qed

text \<open>
  C9. \<open>GetDerivative\<close> is memoized by node identity. When a call on \<open>n\<close> returns \<open>r\<close>, the
  cache maps \<open>n\<close> to \<open>r\<close>; a second call on \<open>n\<close>, at once or after any sequence \<open>ws\<close> of
  further calls, returns the same pointer \<open>r\<close> and leaves the state as it is: no node is
  built and nothing is differentiated again.
\<close>

theorem GetDerivative_memoized:
  assumes first: "GetDerivative k ev n g = Some (Inr (r, g'))"
    and later: "ret_loop k' ev ws g' = Some (Inr (rs, g''))"
  shows "gr_seen g' n = Some r
       \<and> GetDerivative (Suc j) ev n g' = Some (Inr (r, g'))
       \<and> gr_seen g'' n = Some r
       \<and> GetDerivative (Suc j) ev n g'' = Some (Inr (r, g''))"
proof -
  from first have c: "gr_seen g' n = Some r"
    by (rule GetDerivative_caches_result)
  then have "[n \<mapsto> r] \<subseteq>\<^sub>m gr_seen g'"
    by (simp add: map_le_def)
  from ret_loop_keeps_cache [OF later this] have "gr_seen g'' n = Some r"
    by (simp add: map_le_def)
  with c show ?thesis by simp
qed

theorem GetDerivative_memoized_witness:
  "GetDerivative (Suc (Suc (Suc 0))) ex_env 0 (ex_grad_w [] [3 \<mapsto> 4])
     = Some (Inr (5, ex_grad_w [\<lparr>shape = scalar_shape, kind = CallExpr ''add'' [4, 4]\<rparr>]
                       [3 \<mapsto> 4, 1 \<mapsto> 4, 0 \<mapsto> 5]))
 \<and> ret_loop (Suc (Suc 0)) ex_env [2, 1]
       (ex_grad_w [\<lparr>shape = scalar_shape, kind = CallExpr ''add'' [4, 4]\<rparr>]
          [3 \<mapsto> 4, 1 \<mapsto> 4, 0 \<mapsto> 5])
     = Some (Inr ([4, 4], ex_grad_w [\<lparr>shape = scalar_shape, kind = CallExpr ''add'' [4, 4]\<rparr>]
                            [3 \<mapsto> 4, 1 \<mapsto> 4, 0 \<mapsto> 5, 2 \<mapsto> 4]))
 \<and> GetDerivative (Suc 0) ex_env 0
       (ex_grad_w [\<lparr>shape = scalar_shape, kind = CallExpr ''add'' [4, 4]\<rparr>]
          [3 \<mapsto> 4, 1 \<mapsto> 4, 0 \<mapsto> 5])
     = Some (Inr (5, ex_grad_w [\<lparr>shape = scalar_shape, kind = CallExpr ''add'' [4, 4]\<rparr>]
                       [3 \<mapsto> 4, 1 \<mapsto> 4, 0 \<mapsto> 5]))
 \<and> GetDerivative (Suc 0) ex_env 0
       (ex_grad_w [\<lparr>shape = scalar_shape, kind = CallExpr ''add'' [4, 4]\<rparr>]
          [3 \<mapsto> 4, 1 \<mapsto> 4, 0 \<mapsto> 5, 2 \<mapsto> 4])
     = Some (Inr (5, ex_grad_w [\<lparr>shape = scalar_shape, kind = CallExpr ''add'' [4, 4]\<rparr>]
                       [3 \<mapsto> 4, 1 \<mapsto> 4, 0 \<mapsto> 5, 2 \<mapsto> 4]))"
proof -
  let ?new = "[\<lparr>shape = scalar_shape, kind = CallExpr ''add'' [4, 4]\<rparr>]"
  have first: "GetDerivative (Suc (Suc (Suc 0))) ex_env 0 (ex_grad_w [] [3 \<mapsto> 4])
     = Some (Inr (5, ex_grad_w ?new [3 \<mapsto> 4, 1 \<mapsto> 4, 0 \<mapsto> 5]))"
    by (simp add: uses_def use_dop_def local_op_def CallOp_def finish_def MakeCall_def
        make_shared_def deref_def ex_grad_w_def ex_uses_w_def ex_graph_w_def ex_graph_def
        ex_env_def scalar_shape_def eval_nat_numeral)
  have later: "ret_loop (Suc (Suc 0)) ex_env [2, 1] (ex_grad_w ?new [3 \<mapsto> 4, 1 \<mapsto> 4, 0 \<mapsto> 5])
     = Some (Inr ([4, 4], ex_grad_w ?new [3 \<mapsto> 4, 1 \<mapsto> 4, 0 \<mapsto> 5, 2 \<mapsto> 4]))"
    by (simp add: uses_def use_dop_def local_op_def CallOp_def finish_def MakeCall_def
        make_shared_def deref_def ex_grad_w_def ex_uses_w_def ex_graph_w_def ex_graph_def
        ex_env_def scalar_shape_def eval_nat_numeral)
  show ?thesis
    using GetDerivative_memoized [OF first later, of 0] first later
    by simp
qed

subsection \<open>The accumulation of \<open>GetDerivative\<close>\<close>

lemma uses_loop_append:
  "uses_loop rec ev (us @ vs) tot g =
     (case uses_loop rec ev us tot g of
        None \<Rightarrow> None
      | Some (Inl e) \<Rightarrow> Some (Inl e)
      | Some (Inr (tot', g1)) \<Rightarrow> uses_loop rec ev vs tot' g1)"
  by (induction us arbitrary: tot g) (auto split: option.splits sum.splits prod.splits)

lemma uses_loop_sum:
  "uses_loop rec ev (rev vs @ [u]) None g =
     (case sum_of_contributions rec ev u vs g of
        None \<Rightarrow> None
      | Some (Inl e) \<Rightarrow> Some (Inl e)
      | Some (Inr (t, g1)) \<Rightarrow> Some (Inr (Some t, g1)))"
proof (induction vs arbitrary: u)
  case Nil
  show ?case
    by (simp split: option.splits sum.splits)
next
  case (Cons v vs)
  have "uses_loop rec ev (rev (v # vs) @ [u]) None g =
      (case uses_loop rec ev (rev vs @ [v]) None g of
         None \<Rightarrow> None
       | Some (Inl e) \<Rightarrow> Some (Inl e)
       | Some (Inr (tot', g1)) \<Rightarrow> uses_loop rec ev [u] tot' g1)"
    using uses_loop_append [of rec ev "rev vs @ [v]" "[u]" None g] by simp
  then show ?case
    by (auto simp: Cons.IH MakeCall_def make_shared_def split: option.splits sum.splits prod.splits)
qed

text \<open>
  C3. For a node \<open>n\<close> that is not in the cache (so not the seed) and has at least one use,
  \<open>GetDerivative\<close> computes the sum of the local contributions of its uses, built as nested
  calls of \<open>add\<close> (\<open>sum_of_contributions\<close>), and fails where that sum fails. When the
  total has a shape of nonzero rank, the result is a new call of \<open>simple_reduce\<close> on the
  total and \<open>n\<close>; otherwise it is the total. The result is stored in the cache under \<open>n\<close>.
  For two uses the total is \<open>add\<close> of the two local contributions.
\<close>

theorem GetDerivative_sums_uses:
  assumes n: "gr_seen g n = None"
    and us: "uses (gr_uses g) n = Inr us"
    and ne: "us \<noteq> []"
  shows "GetDerivative (Suc k) ev n g =
     (case sum_of_contributions (GetDerivative k ev) ev (last us) (rev (butlast us)) g of
        None \<Rightarrow> None
      | Some (Inl e) \<Rightarrow> Some (Inl e)
      | Some (Inr (t, g1)) \<Rightarrow>
          (case deref (gr_store g1) t of
             None \<Rightarrow> Some (Inl BadPointer)
           | Some tx \<Rightarrow>
               if dims (shape tx) \<noteq> []
               then Some (Inr (length (gr_store g1),
                      g1\<lparr>gr_store := gr_store g1 @
                            [\<lparr>shape = call_shape ev (gr_store g1) ''simple_reduce'' [t, n],
                              kind = CallExpr ''simple_reduce'' [t, n]\<rparr>],
                         gr_seen := (gr_seen g1)(n \<mapsto> length (gr_store g1))\<rparr>))
               else Some (Inr (t, g1\<lparr>gr_seen := (gr_seen g1)(n \<mapsto> t)\<rparr>))))"
proof -
  from us have cu: "cu_uses (gr_uses g) n = Some us"
    by (simp add: uses_def split: option.splits)
  from ne have split: "us = rev (rev (butlast us)) @ [last us]"
    by simp
  have loop: "uses_loop (GetDerivative k ev) ev us None g =
     (case sum_of_contributions (GetDerivative k ev) ev (last us) (rev (butlast us)) g of
        None \<Rightarrow> None
      | Some (Inl e) \<Rightarrow> Some (Inl e)
      | Some (Inr (t, g1)) \<Rightarrow> Some (Inr (Some t, g1)))"
    using uses_loop_sum [of "GetDerivative k ev" ev "rev (butlast us)" "last us" g] split
    by simp
  show ?thesis
  proof (cases "sum_of_contributions (GetDerivative k ev) ev (last us) (rev (butlast us)) g")
    case None
    with loop n us show ?thesis by simp
  next
    case (Some res)
    show ?thesis
    proof (cases res)
      case (Inl e)
      with Some loop n us show ?thesis by simp
    next
      case (Inr tg)
      obtain t g1 where tg: "tg = (t, g1)"
        by (cases tg)
      with Some Inr loop
      have l: "uses_loop (GetDerivative k ev) ev us None g = Some (Inr (Some t, g1))"
        by simp
      then have G: "GetDerivative (Suc k) ev n g = Some (finish ev n (Some t) g1)"
        using n us by simp
      have unc: "gr_seen g1 n = None" if "finish ev n (Some t) g1 = Inr (r, g')" for r g'
        using uses_loop_keeps_uncached [OF n cu _ l] G that by simp
      show ?thesis
      proof (cases "deref (gr_store g1) t")
        case None
        with G Some Inr tg show ?thesis
          by (simp add: finish_def)
      next
        case (Some tx)
        then obtain r g' where f: "finish ev n (Some t) g1 = Inr (r, g')"
          by (cases "dims (shape tx) = []") (auto simp: finish_def MakeCall_def make_shared_def)
        from unc [OF f] G Some \<open>sum_of_contributions _ _ _ _ _ = _\<close> Inr tg show ?thesis
          by (simp add: finish_def MakeCall_def make_shared_def)
      qed
    qed
  qed
qed

theorem GetDerivative_sums_uses_witness:
  "GetDerivative (Suc (Suc 0)) ex_env 0 ex_grad = Some (Inr (4, ex_grad_x))
 \<and> sum_of_contributions (GetDerivative (Suc 0) ex_env) ex_env \<lparr>expr = 1, idx = 1\<rparr>
      [\<lparr>expr = 1, idx = 0\<rparr>] ex_grad
     = Some (Inr (4, ex_grad\<lparr>gr_store := gr_store ex_grad_x\<rparr>))"
proof -
  have 1: "gr_seen ex_grad 0 = None"
    and 2: "uses (gr_uses ex_grad) 0 = Inr [\<lparr>expr = 1, idx = 0\<rparr>, \<lparr>expr = 1, idx = 1\<rparr>]"
    and 3: "[\<lparr>expr = 1, idx = 0\<rparr>, \<lparr>expr = 1, idx = 1\<rparr>] \<noteq> []"
    by (simp_all add: ex_grad_def uses_def)
  have s: "sum_of_contributions (GetDerivative (Suc 0) ex_env) ex_env \<lparr>expr = 1, idx = 1\<rparr>
      [\<lparr>expr = 1, idx = 0\<rparr>] ex_grad
     = Some (Inr (4, ex_grad\<lparr>gr_store := gr_store ex_grad_x\<rparr>))"
    by (simp add: use_dop_def local_op_def CallOp_def deref_def ex_grad_def ex_grad_x_def
        ex_graph_def ex_env_def)
  show ?thesis
    using GetDerivative_sums_uses [OF 1 2 3, of "Suc 0" ex_env] s
    by (simp add: deref_def ex_grad_def ex_grad_x_def ex_graph_def scalar_shape_def)
qed

end
